(* ===== verification/Prelude.thy ===== *)
theory Prelude
  imports Main "HOL-Library.Sublist"
begin

text \<open>
  The generic part of the development: the named collections the component theories fill, and the
  interfaces (locales) several components rely on.

  \<^item> \<open>field_map\<close> and \<open>multi_map\<close>: a keyed container with lookup and insert. It is provided by the
    JSON object of theory \<open>Json\<close> and by the field cache of theory \<open>Sensitive\<close>; the facts about
    building a document field by field, masking fields and grouping rows are proved here once.
  \<^item> \<open>drop_oldest_buffer\<close>: a bounded buffer that evicts its head, provided by the retry queue of
    theory \<open>Writer\<close>.
  \<^item> \<open>inductive_invariant\<close>: an invariant of a transition system, provided by the forwarder's step
    relation in theory \<open>Forwarder\<close>; \<open>refinement\<close> extends it by a specification the system refines,
    provided in theory \<open>AuditLog\<close>.
\<close>

named_theorems str_simps \<open>evaluation of the string operations\<close>
named_theorems json_simps \<open>lookup and update on JSON values\<close>
named_theorems model_defs \<open>definitions of the model unfolded together\<close>

section \<open>Keyed containers\<close>

locale field_map =
  fixes lookup :: "'m \<Rightarrow> 'k \<Rightarrow> 'v option"
    and insert :: "'k \<Rightarrow> 'v \<Rightarrow> 'm \<Rightarrow> 'm"
  assumes lookup_insert: "lookup (insert k v m) k' = (if k' = k then Some v else lookup m k')"
begin

lemma lookup_inserts:
  "lookup (fold (\<lambda>kv. insert (fst kv) (snd kv)) kvs m) k =
     (case map_of (rev kvs) k of Some v \<Rightarrow> Some v | None \<Rightarrow> lookup m k)"
  by (induction kvs arbitrary: m) (auto simp: lookup_insert map_add_def split: option.splits)

lemma lookup_masked:
  "lookup (fold (\<lambda>x m. if p x \<and> lookup m (key x) \<noteq> None then insert (key x) v m else m) xs m) k =
     (if (\<exists>x \<in> set xs. p x \<and> key x = k) \<and> lookup m k \<noteq> None then Some v else lookup m k)"
  by (induction xs arbitrary: m) (auto simp: lookup_insert)

end

locale multi_map = field_map lookup insert
  for lookup :: "'m \<Rightarrow> 'k \<Rightarrow> 'x list option"
    and insert :: "'k \<Rightarrow> 'x list \<Rightarrow> 'm \<Rightarrow> 'm"
begin

lemma lookup_grouped:
  "lookup (fold (\<lambda>r m. insert (key r) ((case lookup m (key r) of None \<Rightarrow> [] | Some l \<Rightarrow> l) @ [val r]) m)
       rows m) k =
     (if \<exists>r \<in> set rows. key r = k
      then Some ((case lookup m k of None \<Rightarrow> [] | Some l \<Rightarrow> l) @ map val (filter (\<lambda>r. key r = k) rows))
      else lookup m k)"
  by (induction rows arbitrary: m) (auto simp: lookup_insert split: option.splits)

end

section \<open>A bounded buffer that drops its oldest element\<close>

locale drop_oldest_buffer =
  fixes push :: "'a \<Rightarrow> 'a list \<Rightarrow> 'a list"
    and cap :: nat
  assumes cap_pos: "0 < cap"
    and push_room: "length q < cap \<Longrightarrow> push x q = q @ [x]"
    and push_full: "cap \<le> length q \<Longrightarrow> push x q = tl q @ [x]"
begin

lemma length_push: "length q \<le> cap \<Longrightarrow> length (push x q) = min cap (Suc (length q))"
  using cap_pos by (cases "length q < cap") (auto simp: push_room push_full)

lemma fold_push_bounded: "length q \<le> cap \<Longrightarrow> length (fold push xs q) \<le> cap"
  by (induction xs arbitrary: q) (auto simp: length_push)

lemma fold_push_keeps_newest:
  "length q \<le> cap \<Longrightarrow> fold push xs q = drop (length q + length xs - cap) (q @ xs)"
proof (induction xs arbitrary: q)
  case Nil
  then show ?case by simp
next
  case (Cons x xs)
  show ?case
  proof (cases "length q < cap")
    case True
    with Cons.IH [of "push x q"] show ?thesis by (simp add: push_room)
  next
    case False
    with Cons.prems cap_pos obtain y ys where q: "q = y # ys" by (cases q) auto
    with False Cons.prems have push: "push x q = ys @ [x]" and cap: "cap = Suc (length ys)"
      by (auto simp: push_full)
    from Cons.IH [of "ys @ [x]"] show ?thesis by (simp add: q [symmetric] push) (simp add: q cap)
  qed
qed

lemma fold_push_fits: "length q + length xs \<le> cap \<Longrightarrow> fold push xs q = q @ xs"
  by (simp add: fold_push_keeps_newest)

lemma fold_push_subseq: "length q \<le> cap \<Longrightarrow> subseq (fold push xs q) (q @ xs)"
  by (metis fold_push_keeps_newest suffix_drop suffix_imp_sublist sublist_imp_subseq)

end

section \<open>Subsequences\<close>

lemma subseq_extend: "subseq xs (as @ bs) \<Longrightarrow> subseq xs (as @ bs @ cs)"
  by (metis append.assoc append_Nil2 list_emb_Nil list_emb_append_mono)

lemma subseq_extend_both: "subseq xs (as @ bs) \<Longrightarrow> subseq (xs @ cs) (as @ bs @ cs)"
  by (metis append.assoc subseq_append)

section \<open>Invariants of a transition system\<close>

inductive reach :: "('s \<Rightarrow> bool) \<Rightarrow> ('s \<Rightarrow> 's \<Rightarrow> bool) \<Rightarrow> 's \<Rightarrow> bool"
  for start :: "'s \<Rightarrow> bool" and step :: "'s \<Rightarrow> 's \<Rightarrow> bool"
where
  reach_start: "start s \<Longrightarrow> reach start step s"
| reach_step: "reach start step s \<Longrightarrow> step s t \<Longrightarrow> reach start step t"

locale inductive_invariant =
  fixes start :: "'s \<Rightarrow> bool"
    and step :: "'s \<Rightarrow> 's \<Rightarrow> bool"
    and inv :: "'s \<Rightarrow> bool"
  assumes inv_start: "start s \<Longrightarrow> inv s"
    and inv_step: "step s t \<Longrightarrow> inv s \<Longrightarrow> inv t"
begin

lemma reach_inv: "reach start step s \<Longrightarrow> inv s"
  by (induction rule: reach.induct) (auto intro: inv_start inv_step)

end

lemma reach_run: "step\<^sup>*\<^sup>* s t \<Longrightarrow> reach start step s \<Longrightarrow> reach start step t"
  by (induction rule: rtranclp_induct) (auto intro: reach_step)

text \<open>Refinement by a function on states: every step of the program is a finite run of the
  specification between the images, under an invariant of the program.\<close>

locale refinement = inductive_invariant start step inv
  for start :: "'s \<Rightarrow> bool" and step :: "'s \<Rightarrow> 's \<Rightarrow> bool" and inv :: "'s \<Rightarrow> bool" +
  fixes astart :: "'a \<Rightarrow> bool"
    and astep :: "'a \<Rightarrow> 'a \<Rightarrow> bool"
    and abs :: "'s \<Rightarrow> 'a"
  assumes abs_start: "start s \<Longrightarrow> astart (abs s)"
    and abs_step: "step s t \<Longrightarrow> inv s \<Longrightarrow> astep\<^sup>*\<^sup>* (abs s) (abs t)"
begin

lemma reach_abs: "reach start step s \<Longrightarrow> reach astart astep (abs s)"
proof (induction rule: reach.induct)
  case (reach_start s)
  then show ?case by (intro reach.reach_start abs_start)
next
  case (reach_step s t)
  then show ?case using reach_run [OF abs_step [OF reach_step.hyps(2) reach_inv [OF reach_step.hyps(1)]]] by blast
qed

lemma run_abs: "step\<^sup>*\<^sup>* s t \<Longrightarrow> inv s \<Longrightarrow> astep\<^sup>*\<^sup>* (abs s) (abs t)"
proof (induction rule: converse_rtranclp_induct)
  case base
  then show ?case by simp
next
  case (step s u)
  then have "astep\<^sup>*\<^sup>* (abs s) (abs u)" and "astep\<^sup>*\<^sup>* (abs u) (abs t)"
    using abs_step inv_step by blast+
  then show ?case by (rule rtranclp_trans)
qed

end

end
