(* ===== verification/RustStr.thy ===== *)
theory RustStr
  imports Prelude "HOL-Library.Word"
begin

text \<open>
  The string operations of Rust's standard library the program uses, on \<open>string\<close> read as the UTF-8
  bytes of a Rust \<open>str\<close>. Byte offsets (\<open>find\<close>, slices) are list positions. White space is Unicode's
  \<open>White_Space\<close>, so a white-space character is recognised by its whole UTF-8 encoding
  (\<open>ws_len\<close> is its length in bytes, 0 where no white space starts). In a valid UTF-8 string no
  encoding starts inside another, so scanning byte by byte finds the same characters as Rust.
\<close>

abbreviation quote_char :: char where "quote_char \<equiv> CHR 0x27"

abbreviation space_char :: char where "space_char \<equiv> CHR '' ''"

definition starts_with :: "string \<Rightarrow> string \<Rightarrow> bool" where
  "starts_with s p \<longleftrightarrow> take (length p) s = p"

definition ends_with :: "string \<Rightarrow> string \<Rightarrow> bool" where
  "ends_with s p \<longleftrightarrow> starts_with (rev s) (rev p)"

text \<open>\<open>str::find\<close> for a single character: the byte offset of the first one.\<close>

fun find_char :: "char \<Rightarrow> string \<Rightarrow> nat option" where
  "find_char c [] = None"
| "find_char c (x # xs) = (if x = c then Some 0 else map_option Suc (find_char c xs))"

subsection \<open>White space\<close>

definition ascii_ws :: "char \<Rightarrow> bool" where
  "ascii_ws c \<longleftrightarrow> c \<in> {CHR 0x09, CHR 0x0A, CHR 0x0B, CHR 0x0C, CHR 0x0D, CHR 0x20}"

definition ascii :: "char \<Rightarrow> bool" where
  "ascii c \<longleftrightarrow> of_char c < (128 :: nat)"

text \<open>The last byte of a three-byte white space that starts with \<open>E2 80\<close>:
  U+2000 to U+200A, U+2028, U+2029 and U+202F.\<close>

definition general_punct_ws :: "char \<Rightarrow> bool" where
  "general_punct_ws c \<longleftrightarrow>
     c \<in> {CHR 0x80, CHR 0x81, CHR 0x82, CHR 0x83, CHR 0x84, CHR 0x85, CHR 0x86, CHR 0x87,
          CHR 0x88, CHR 0x89, CHR 0x8A, CHR 0xA8, CHR 0xA9, CHR 0xAF}"

definition ws2 :: "char \<Rightarrow> char \<Rightarrow> bool" where
  "ws2 a b \<longleftrightarrow> a = CHR 0xC2 \<and> (b = CHR 0x85 \<or> b = CHR 0xA0)"

definition ws3 :: "char \<Rightarrow> char \<Rightarrow> char \<Rightarrow> bool" where
  "ws3 a b c \<longleftrightarrow>
     a = CHR 0xE1 \<and> b = CHR 0x9A \<and> c = CHR 0x80 \<or>
     a = CHR 0xE2 \<and> b = CHR 0x80 \<and> general_punct_ws c \<or>
     a = CHR 0xE2 \<and> b = CHR 0x81 \<and> c = CHR 0x9F \<or>
     a = CHR 0xE3 \<and> b = CHR 0x80 \<and> c = CHR 0x80"

fun ws_len :: "string \<Rightarrow> nat" where
  "ws_len [] = 0"
| "ws_len [a] = (if ascii_ws a then 1 else 0)"
| "ws_len [a, b] = (if ascii_ws a then 1 else if ws2 a b then 2 else 0)"
| "ws_len (a # b # c # s) =
     (if ascii_ws a then 1 else if ws2 a b then 2 else if ws3 a b c then 3 else 0)"

fun trim_start :: "string \<Rightarrow> string" where
  "trim_start [] = []"
| "trim_start (c # s) =
     (if ws_len (c # s) = 0 then c # s else trim_start (drop (ws_len (c # s) - 1) s))"

definition all_ws :: "string \<Rightarrow> bool" where
  "all_ws s \<longleftrightarrow> trim_start s = []"

fun trim_end :: "string \<Rightarrow> string" where
  "trim_end [] = []"
| "trim_end (c # s) = (if all_ws (c # s) then [] else c # trim_end s)"

definition trim :: "string \<Rightarrow> string" where
  "trim s = trim_end (trim_start s)"

text \<open>\<open>split_whitespace\<close>: the maximal runs without white space, none of them empty.\<close>

fun split_ws_from :: "string \<Rightarrow> string \<Rightarrow> string list" where
  "split_ws_from cur [] = (if cur = [] then [] else [cur])"
| "split_ws_from cur (c # s) =
     (if ws_len (c # s) = 0 then split_ws_from (cur @ [c]) s
      else (if cur = [] then [] else [cur]) @ split_ws_from [] (drop (ws_len (c # s) - 1) s))"

definition split_whitespace :: "string \<Rightarrow> string list" where
  "split_whitespace s = split_ws_from [] s"

subsection \<open>Splitting, replacing and stripping\<close>

text \<open>\<open>str::split\<close> at a character: always at least one piece, empty pieces kept.\<close>

fun split_char :: "char \<Rightarrow> string \<Rightarrow> string list" where
  "split_char d [] = [[]]"
| "split_char d (c # s) =
     (if c = d then [] # split_char d s
      else (case split_char d s of [] \<Rightarrow> [[c]] | w # ws \<Rightarrow> (c # w) # ws))"

text \<open>\<open>replace\<close> of a doubled quote by a single one, left to right and not overlapping.\<close>

fun undouble_quotes :: "string \<Rightarrow> string" where
  "undouble_quotes (a # b # s) =
     (if a = quote_char \<and> b = quote_char then quote_char # undouble_quotes s
      else a # undouble_quotes (b # s))"
| "undouble_quotes s = s"

definition trim_end_quotes :: "string \<Rightarrow> string" where
  "trim_end_quotes s = rev (dropWhile (\<lambda>c. c = quote_char) (rev s))"

text \<open>\<open>trim_start_matches("$.")\<close>: the prefix is removed as often as it occurs.\<close>

fun trim_dollar_dot :: "string \<Rightarrow> string" where
  "trim_dollar_dot (a # b # s) =
     (if a = CHR ''$'' \<and> b = CHR ''.'' then trim_dollar_dot s else a # b # s)"
| "trim_dollar_dot s = s"

text \<open>Decimal output of an unsigned integer, as \<open>format!\<close> prints it.\<close>

definition digit_char :: "nat \<Rightarrow> char" where
  "digit_char d = char_of (48 + d)"

fun show_nat :: "nat \<Rightarrow> string" where
  "show_nat n = (if n < 10 then [digit_char n] else show_nat (n div 10) @ [digit_char (n mod 10)])"

declare show_nat.simps [simp del]

section \<open>Lemmas\<close>

lemma starts_with_append [simp]: "starts_with (p @ s) p"
  by (simp add: starts_with_def)

lemma starts_with_Nil [simp]: "starts_with s []"
  by (simp add: starts_with_def)

lemma starts_with_Cons [simp]: "starts_with s (c # p) \<longleftrightarrow> (\<exists>t. s = c # t \<and> starts_with t p)"
  by (cases s) (auto simp: starts_with_def)

lemma ends_with_single [simp]: "ends_with s [c] \<longleftrightarrow> s \<noteq> [] \<and> last s = c"
  by (cases s rule: rev_cases) (auto simp: ends_with_def)

lemma find_char_append: "c \<notin> set s \<Longrightarrow> find_char c (s @ c # t) = Some (length s)"
  by (induction s) auto

lemma find_char_None: "find_char c s = None \<longleftrightarrow> c \<notin> set s"
  by (induction s) auto

lemma find_char_SomeD:
  "find_char c s = Some n \<Longrightarrow> \<exists>a b. s = a @ c # b \<and> length a = n \<and> c \<notin> set a"
proof (induction s arbitrary: n)
  case Nil
  then show ?case by simp
next
  case (Cons x xs)
  show ?case
  proof (cases "x = c")
    case True
    with Cons.prems show ?thesis by (intro exI [of _ "[]"] exI [of _ xs]) auto
  next
    case False
    with Cons.prems obtain m where "find_char c xs = Some m" and n: "n = Suc m" by auto
    with Cons.IH obtain a b where "xs = a @ c # b" "length a = m" "c \<notin> set a" by blast
    with False n show ?thesis by (intro exI [of _ "x # a"] exI [of _ b]) auto
  qed
qed

subsection \<open>White space and tokens\<close>

text \<open>A string with no white space in it, at any offset.\<close>

fun no_ws :: "string \<Rightarrow> bool" where
  "no_ws [] \<longleftrightarrow> True"
| "no_ws (c # s) \<longleftrightarrow> ws_len (c # s) = 0 \<and> no_ws s"

lemma not_ascii_bytes:
  "\<not> ascii (CHR 0x80)" "\<not> ascii (CHR 0x81)" "\<not> ascii (CHR 0x85)" "\<not> ascii (CHR 0x9A)"
  "\<not> ascii (CHR 0x9F)" "\<not> ascii (CHR 0xA0)" "\<not> ascii (CHR 0xC2)" "\<not> ascii (CHR 0xE1)"
  "\<not> ascii (CHR 0xE2)" "\<not> ascii (CHR 0xE3)"
  by (simp_all add: ascii_def)

lemma not_ascii_general_punct: "ascii c \<Longrightarrow> \<not> general_punct_ws c"
  unfolding general_punct_ws_def insert_iff empty_iff by (rule notI, elim disjE) (simp_all add: ascii_def)

lemma ascii_not_continuation:
  assumes "ascii c"
  shows "\<not> ws2 a c" "\<not> ws3 a c b" "\<not> ws3 a b c"
  using assms not_ascii_general_punct [of c] not_ascii_bytes by (auto simp: ws2_def ws3_def)

lemma ws_len_append_ascii:
  assumes "ascii c"
  shows "ws_len (a # s @ c # t) = ws_len (a # s)"
proof (cases s)
  case Nil
  with assms show ?thesis by (cases t) (auto simp: ascii_not_continuation)
next
  case (Cons b s')
  with assms show ?thesis by (cases s') (auto simp: ascii_not_continuation)
qed

lemma ws_len_space [simp]: "ws_len (space_char # s) = 1"
  by (cases "space_char # s" rule: ws_len.cases) (auto simp: ascii_ws_def)

lemma ws_len_ascii: "ascii c \<Longrightarrow> ws_len (c # s) = (if ascii_ws c then 1 else 0)"
  using not_ascii_bytes by (cases "c # s" rule: ws_len.cases) (auto simp: ws2_def ws3_def)

lemma ascii_space [simp]: "ascii space_char" and ascii_quote [simp]: "ascii quote_char"
  and ascii_colon [simp]: "ascii (CHR '':'')" and ascii_lbrack [simp]: "ascii (CHR ''['')"
  and ascii_rbrack [simp]: "ascii (CHR '']'')"
  by (simp_all add: ascii_def)

lemma ascii_ws_marks [simp]:
  "\<not> ascii_ws quote_char" "\<not> ascii_ws (CHR '':'')" "\<not> ascii_ws (CHR ''['')" "\<not> ascii_ws (CHR '']'')"
  by (simp_all add: ascii_ws_def)

lemma no_ws_append_ascii:
  "ascii c \<Longrightarrow> no_ws (s @ c # t) \<longleftrightarrow> no_ws s \<and> no_ws (c # t)"
  by (induction s) (auto simp: ws_len_append_ascii)

lemma split_ws_from_token:
  assumes "no_ws w" and "r = [] \<or> (\<exists>t. r = space_char # t)"
  shows "split_ws_from cur (w @ r) = split_ws_from (cur @ w) r"
  using assms
proof (induction w arbitrary: cur)
  case Nil
  then show ?case by simp
next
  case (Cons c w)
  from Cons.prems have "ws_len ((c # w) @ r) = 0"
    by (auto simp: ws_len_append_ascii)
  with Cons show ?case by simp
qed

fun join_words :: "string list \<Rightarrow> string" where
  "join_words [] = []"
| "join_words [w] = w"
| "join_words (w # v # ws) = w @ space_char # join_words (v # ws)"

lemma join_words_Cons: "ws \<noteq> [] \<Longrightarrow> join_words (w # ws) = w @ space_char # join_words ws"
  by (cases ws) auto

lemma split_whitespace_Cons:
  assumes "no_ws w" and "w \<noteq> []"
  shows "split_whitespace (w @ space_char # s) = w # split_whitespace s"
  using assms by (simp add: split_whitespace_def split_ws_from_token)

lemma split_whitespace_join:
  "\<forall>w \<in> set ws. no_ws w \<and> w \<noteq> [] \<Longrightarrow> split_whitespace (join_words ws) = ws"
proof (induction ws rule: join_words.induct)
  case 1
  then show ?case by (simp add: split_whitespace_def)
next
  case (2 w)
  then show ?case
    using split_ws_from_token [of w "[]" "[]"] by (simp add: split_whitespace_def)
next
  case (3 w v ws)
  then show ?case by (simp add: split_whitespace_Cons)
qed

text \<open>No token of \<open>split_whitespace\<close> is empty.\<close>

lemma split_ws_from_nonempty: "w \<in> set (split_ws_from cur s) \<Longrightarrow> w \<noteq> []"
  by (induction cur s rule: split_ws_from.induct) (auto split: if_splits)

subsection \<open>Trimming\<close>

lemma trim_start_id: "ws_len s = 0 \<Longrightarrow> trim_start s = s"
  by (cases s) auto

lemma all_ws_mark: "ascii c \<Longrightarrow> \<not> ascii_ws c \<Longrightarrow> \<not> all_ws (s @ c # t)"
proof (induction s rule: length_induct)
  case (1 s)
  show ?case
  proof (cases s)
    case Nil
    with 1 show ?thesis by (simp add: all_ws_def ws_len_ascii)
  next
    case (Cons a s')
    let ?n = "ws_len (a # s')"
    have len: "?n \<le> length (a # s')"
      by (cases "a # s'" rule: ws_len.cases) auto
    have eq: "ws_len (s @ c # t) = ?n"
      using 1 Cons by (simp add: ws_len_append_ascii)
    show ?thesis
    proof (cases "?n = 0")
      case True
      with Cons eq show ?thesis by (simp add: all_ws_def)
    next
      case False
      have "\<not> all_ws (drop (?n - 1) s' @ c # t)"
        using 1 Cons by simp
      with False Cons eq len show ?thesis by (simp add: all_ws_def)
    qed
  qed
qed

lemma no_ws_not_all_ws: "no_ws s \<Longrightarrow> s \<noteq> [] \<Longrightarrow> \<not> all_ws s"
  unfolding all_ws_def by (cases s) (simp_all del: trim_start.simps add: trim_start_id)

lemma trim_end_no_ws: "no_ws s \<Longrightarrow> trim_end s = s"
  by (induction s) (auto simp: no_ws_not_all_ws)

lemma trim_end_mark:
  "ascii c \<Longrightarrow> \<not> ascii_ws c \<Longrightarrow> no_ws t \<Longrightarrow> trim_end (s @ c # t) = s @ c # t"
proof (induction s)
  case Nil
  then have "no_ws (c # t)" by (simp add: ws_len_ascii)
  then show ?case by (metis append_Nil trim_end_no_ws)
next
  case (Cons a s)
  with all_ws_mark [of c "a # s" t] show ?case by simp
qed

lemma trim_no_ws: "no_ws s \<Longrightarrow> trim s = s"
  by (cases s) (simp_all add: trim_def trim_start_id trim_end_no_ws del: trim_end.simps)

lemma trim_mark:
  "ws_len s = 0 \<Longrightarrow> s = u @ c # t \<Longrightarrow> ascii c \<Longrightarrow> \<not> ascii_ws c \<Longrightarrow> no_ws t \<Longrightarrow> trim s = s"
  by (simp add: trim_def trim_start_id trim_end_mark)

lemma trim_space: "trim (space_char # s) = trim s"
  by (simp add: trim_def)

subsection \<open>The other operations\<close>

lemma split_char_nonempty [simp]: "split_char d s \<noteq> []"
  by (cases s) (auto split: list.splits)

lemma split_char_no_sep: "w \<in> set (split_char d s) \<Longrightarrow> d \<notin> set w"
  by (induction s arbitrary: w) (fastforce split: if_splits list.splits)+

lemma trim_dollar_dot_idem: "trim_dollar_dot (trim_dollar_dot s) = trim_dollar_dot s"
  by (induction s rule: trim_dollar_dot.induct) auto

lemma trim_dollar_dot_plain:
  "\<not> starts_with s ''$.'' \<Longrightarrow> trim_dollar_dot s = s"
  by (cases s rule: trim_dollar_dot.cases) auto

lemma trim_dollar_dot_prefix [simp]: "trim_dollar_dot (''$.'' @ s) = trim_dollar_dot s"
  by simp

end
