(* ===== verification/Json.thy ===== *)
theory Json
  imports RustStr "HOL-Library.Char_ord" "HOL-Library.List_Lexorder"
begin

text \<open>
  The JSON document type every component passes around (\<open>serde_json::Value\<close>), as the program uses
  it. A number is what \<open>serde_json\<close> documents: an unsigned or a negative 64-bit integer, or a finite
  \<open>f64\<close>, kept as its IEEE-754 bits. An object is the documented default \<open>Map\<close>, a \<open>BTreeMap\<close>:
  an association list with strictly increasing keys in the byte order of the strings.

  \<^item> \<open>jget\<close> is \<open>value["key"]\<close> (\<open>null\<close> where there is no such key), \<open>jlookup\<close> is
    \<open>Value::get\<close>, and \<open>jset\<close> is the assignment \<open>value["key"] = v\<close>, which turns \<open>null\<close> into an
    object and panics (\<open>None\<close>) on every other value that is not an object.
  \<^item> \<open>json_eq\<close> is the derived \<open>PartialEq\<close>: floats compare as IEEE-754 numbers.
  \<^item> Parsing and printing of JSON text are not modelled; they are parameters where they are used.
\<close>

section \<open>Values\<close>

datatype jnum = PosInt "64 word" | NegInt "64 word" | Float "64 word"

datatype json =
    JNull
  | JBool bool
  | JNumber jnum
  | JString string
  | JArray "json list"
  | JObject "(string \<times> json) list"

type_synonym jmap = "(string \<times> json) list"

section \<open>Objects\<close>

fun obj_insert :: "string \<Rightarrow> 'v \<Rightarrow> (string \<times> 'v) list \<Rightarrow> (string \<times> 'v) list" where
  "obj_insert k v [] = [(k, v)]"
| "obj_insert k v ((a, b) # m) =
     (if k < a then (k, v) # (a, b) # m
      else if k = a then (k, v) # m
      else (a, b) # obj_insert k v m)"

definition obj_get :: "(string \<times> 'v) list \<Rightarrow> string \<Rightarrow> 'v option" where
  "obj_get m k = map_of m k"

definition contains_key :: "(string \<times> 'v) list \<Rightarrow> string \<Rightarrow> bool" where
  "contains_key m k \<longleftrightarrow> obj_get m k \<noteq> None"

definition obj_keys :: "(string \<times> 'v) list \<Rightarrow> string list" where
  "obj_keys m = map fst m"

definition wf_obj :: "(string \<times> 'v) list \<Rightarrow> bool" where
  "wf_obj m \<longleftrightarrow> sorted_wrt (<) (obj_keys m)"

text \<open>The object a \<open>json!\<close> literal with these fields builds.\<close>

definition obj_of :: "(string \<times> 'v) list \<Rightarrow> (string \<times> 'v) list" where
  "obj_of kvs = fold (\<lambda>kv. obj_insert (fst kv) (snd kv)) kvs []"

definition jobj :: "(string \<times> json) list \<Rightarrow> json" where
  "jobj kvs = JObject (obj_of kvs)"

fun json_wf :: "json \<Rightarrow> bool" where
  "json_wf (JArray vs) \<longleftrightarrow> (\<forall>v \<in> set vs. json_wf v)"
| "json_wf (JObject m) \<longleftrightarrow> wf_obj m \<and> (\<forall>kv \<in> set m. json_wf (snd kv))"
| "json_wf _ \<longleftrightarrow> True"

section \<open>Indexing and conversions\<close>

fun jlookup :: "json \<Rightarrow> string \<Rightarrow> json option" where
  "jlookup (JObject m) k = obj_get m k"
| "jlookup _ k = None"

definition jget :: "json \<Rightarrow> string \<Rightarrow> json" where
  "jget v k = (case jlookup v k of Some x \<Rightarrow> x | None \<Rightarrow> JNull)"

fun jset :: "json \<Rightarrow> string \<Rightarrow> json \<Rightarrow> json option" where
  "jset JNull k x = Some (JObject [(k, x)])"
| "jset (JObject m) k x = Some (JObject (obj_insert k x m))"
| "jset _ k x = None"

fun as_str :: "json \<Rightarrow> string option" where
  "as_str (JString s) = Some s"
| "as_str _ = None"

fun as_bool :: "json \<Rightarrow> bool option" where
  "as_bool (JBool b) = Some b"
| "as_bool _ = None"

text \<open>\<open>as_i64\<close>: the integer if it fits in a signed 64-bit one, as its two's complement word.\<close>

fun as_i64 :: "json \<Rightarrow> 64 word option" where
  "as_i64 (JNumber (PosInt n)) = (if unat n < 2 ^ 63 then Some n else None)"
| "as_i64 (JNumber (NegInt n)) = Some n"
| "as_i64 _ = None"

fun is_null :: "json \<Rightarrow> bool" where
  "is_null JNull \<longleftrightarrow> True"
| "is_null _ \<longleftrightarrow> False"

fun is_object :: "json \<Rightarrow> bool" where
  "is_object (JObject _) \<longleftrightarrow> True"
| "is_object _ \<longleftrightarrow> False"

fun is_array :: "json \<Rightarrow> bool" where
  "is_array (JArray _) \<longleftrightarrow> True"
| "is_array _ \<longleftrightarrow> False"

section \<open>Equality\<close>

text \<open>IEEE-754 equality on the bits of two \<open>f64\<close>: a NaN (exponent all ones, fraction not 0) is
  equal to nothing, and the two zeros are equal.\<close>

definition f64_nan :: "64 word \<Rightarrow> bool" where
  "f64_nan w \<longleftrightarrow> unat w mod 2 ^ 63 > 0x7FF0000000000000"

definition f64_zero :: "64 word \<Rightarrow> bool" where
  "f64_zero w \<longleftrightarrow> unat w mod 2 ^ 63 = 0"

definition f64_eq :: "64 word \<Rightarrow> 64 word \<Rightarrow> bool" where
  "f64_eq a b \<longleftrightarrow> \<not> f64_nan a \<and> \<not> f64_nan b \<and> (a = b \<or> f64_zero a \<and> f64_zero b)"

fun jnum_eq :: "jnum \<Rightarrow> jnum \<Rightarrow> bool" where
  "jnum_eq (PosInt a) (PosInt b) \<longleftrightarrow> a = b"
| "jnum_eq (NegInt a) (NegInt b) \<longleftrightarrow> a = b"
| "jnum_eq (Float a) (Float b) \<longleftrightarrow> f64_eq a b"
| "jnum_eq _ _ \<longleftrightarrow> False"

fun json_eq :: "json \<Rightarrow> json \<Rightarrow> bool"
  and array_eq :: "json list \<Rightarrow> json list \<Rightarrow> bool"
  and object_eq :: "jmap \<Rightarrow> jmap \<Rightarrow> bool"
where
  "json_eq JNull JNull \<longleftrightarrow> True"
| "json_eq (JBool a) (JBool b) \<longleftrightarrow> a = b"
| "json_eq (JNumber a) (JNumber b) \<longleftrightarrow> jnum_eq a b"
| "json_eq (JString a) (JString b) \<longleftrightarrow> a = b"
| "json_eq (JArray a) (JArray b) \<longleftrightarrow> array_eq a b"
| "json_eq (JObject a) (JObject b) \<longleftrightarrow> object_eq a b"
| "json_eq _ _ \<longleftrightarrow> False"
| "array_eq [] [] \<longleftrightarrow> True"
| "array_eq (v # vs) (w # ws) \<longleftrightarrow> json_eq v w \<and> array_eq vs ws"
| "array_eq _ _ \<longleftrightarrow> False"
| "object_eq [] [] \<longleftrightarrow> True"
| "object_eq ((k, v) # m) ((l, w) # n) \<longleftrightarrow> k = l \<and> json_eq v w \<and> object_eq m n"
| "object_eq _ _ \<longleftrightarrow> False"

text \<open>No number in the value is a NaN, which \<open>serde_json\<close> guarantees of every \<open>Value\<close>.\<close>

fun jnum_finite :: "jnum \<Rightarrow> bool" where
  "jnum_finite (Float w) \<longleftrightarrow> \<not> f64_nan w"
| "jnum_finite _ \<longleftrightarrow> True"

fun json_finite :: "json \<Rightarrow> bool" where
  "json_finite (JNumber n) \<longleftrightarrow> jnum_finite n"
| "json_finite (JArray vs) \<longleftrightarrow> (\<forall>v \<in> set vs. json_finite v)"
| "json_finite (JObject m) \<longleftrightarrow> (\<forall>kv \<in> set m. json_finite (snd kv))"
| "json_finite _ \<longleftrightarrow> True"

section \<open>Lemmas\<close>

lemma obj_get_insert: "obj_get (obj_insert k v m) k' = (if k' = k then Some v else obj_get m k')"
  by (induction k v m rule: obj_insert.induct) (auto simp: obj_get_def)

interpretation obj: field_map obj_get obj_insert
  by unfold_locales (rule obj_get_insert)

lemma obj_get_Nil [simp]: "obj_get [] k = None"
  by (simp add: obj_get_def)

lemma obj_get_Cons: "obj_get ((a, b) # m) k = (if k = a then Some b else obj_get m k)"
  by (simp add: obj_get_def)

lemma obj_get_obj_of: "obj_get (obj_of kvs) k = map_of (rev kvs) k"
  by (simp add: obj_of_def obj.lookup_inserts split: option.splits)

lemma obj_keys_simps [simp]: "obj_keys [] = []" "obj_keys ((k, v) # m) = k # obj_keys m"
  by (simp_all add: obj_keys_def)

lemma contains_key_iff: "contains_key m k \<longleftrightarrow> k \<in> set (obj_keys m)"
  by (auto simp: contains_key_def obj_get_def obj_keys_def map_of_eq_None_iff)

lemma set_obj_insert: "kv \<in> set (obj_insert k v m) \<Longrightarrow> kv = (k, v) \<or> kv \<in> set m"
  by (induction k v m rule: obj_insert.induct) (auto split: if_splits)

lemma set_keys_insert: "set (obj_keys (obj_insert k v m)) = insert k (set (obj_keys m))"
  by (induction k v m rule: obj_insert.induct) (auto simp: obj_keys_def)

lemma wf_obj_Nil [simp]: "wf_obj []"
  by (simp add: wf_obj_def obj_keys_def)

lemma wf_obj_Cons: "wf_obj ((k, v) # m) \<longleftrightarrow> (\<forall>a \<in> set (obj_keys m). k < a) \<and> wf_obj m"
  by (simp add: wf_obj_def obj_keys_def)

lemma wf_obj_insert: "wf_obj m \<Longrightarrow> wf_obj (obj_insert k v m)"
  by (induction k v m rule: obj_insert.induct)
    (auto simp: wf_obj_Cons set_keys_insert dest: order.strict_trans)

lemma wf_obj_inserts: "wf_obj m \<Longrightarrow> wf_obj (fold (\<lambda>kv. obj_insert (fst kv) (snd kv)) kvs m)"
  by (induction kvs arbitrary: m) (auto simp: wf_obj_insert)

lemma wf_obj_of: "wf_obj (obj_of kvs)"
  by (simp add: obj_of_def wf_obj_inserts)

lemma wf_obj_distinct: "wf_obj m \<Longrightarrow> distinct (obj_keys m)"
  by (simp add: wf_obj_def strict_sorted_iff)

lemma wf_obj_get: "wf_obj m \<Longrightarrow> (k, v) \<in> set m \<longleftrightarrow> obj_get m k = Some v"
  using wf_obj_distinct [of m] by (auto simp: obj_get_def obj_keys_def)

lemma set_keys_obj_of: "set (obj_keys (obj_of kvs)) = fst ` set kvs"
proof -
  have "set (obj_keys (fold (\<lambda>kv. obj_insert (fst kv) (snd kv)) kvs m)) =
      set (obj_keys m) \<union> fst ` set kvs" for m :: "(string \<times> 'a) list"
    by (induction kvs arbitrary: m) (auto simp: set_keys_insert)
  then show ?thesis by (simp add: obj_of_def obj_keys_def)
qed

subsection \<open>Indexing\<close>

lemma jget_jobj [json_simps]:
  "jget (jobj kvs) k = (case map_of (rev kvs) k of Some v \<Rightarrow> v | None \<Rightarrow> JNull)"
  by (simp add: jget_def jobj_def obj_get_obj_of)

lemma jlookup_jobj [json_simps]: "jlookup (jobj kvs) k = map_of (rev kvs) k"
  by (simp add: jobj_def obj_get_obj_of)

lemma jset_get: "jset v k x = Some w \<Longrightarrow> jget w k' = (if k' = k then x else jget v k')"
  by (cases v) (auto simp: jget_def obj_get_insert obj_get_Cons)

lemma jset_eq_None: "jset v k x = None \<longleftrightarrow> \<not> (is_null v \<or> is_object v)"
  by (cases v) auto

lemma jset_is_object: "jset v k x = Some w \<Longrightarrow> is_object w"
  by (cases v) auto

lemma json_wf_jset: "jset v k x = Some w \<Longrightarrow> json_wf v \<Longrightarrow> json_wf x \<Longrightarrow> json_wf w"
  by (cases v) (auto simp: wf_obj_insert wf_obj_Cons obj_keys_def dest!: set_obj_insert)

subsection \<open>Equality\<close>

lemma array_eq_refl: "\<forall>v \<in> set vs. json_eq v v \<Longrightarrow> array_eq vs vs"
  by (induction vs) auto

lemma object_eq_refl: "\<forall>kv \<in> set m. json_eq (snd kv) (snd kv) \<Longrightarrow> object_eq m m"
  by (induction m) auto

lemma jnum_eq_refl: "jnum_finite n \<Longrightarrow> jnum_eq n n"
  by (cases n) (auto simp: f64_eq_def)

lemma json_eq_refl: "json_finite v \<Longrightarrow> json_eq v v"
proof (induction v)
  case (JObject m)
  then show ?case by (auto intro!: object_eq_refl)
qed (auto simp: jnum_eq_refl intro!: array_eq_refl)

lemma jnum_eq_sym: "jnum_eq a b \<longleftrightarrow> jnum_eq b a"
  by (cases a; cases b) (auto simp: f64_eq_def)

lemma json_eq_sym: "json_eq a b \<longleftrightarrow> json_eq b a"
  and array_eq_sym: "array_eq vs ws \<longleftrightarrow> array_eq ws vs"
  and object_eq_sym: "object_eq m n \<longleftrightarrow> object_eq n m"
  by (induction a b and vs ws and m n rule: json_eq_array_eq_object_eq.induct)
    (auto simp: jnum_eq_sym)

end
