(* ===== verification/Sensitive.thy ===== *)
theory Sensitive
  imports Json
begin

text \<open>
  The sensitive-field registry (\<open>forwarder/src/sensitive.rs\<close>): the globally configured names, the
  per-table cache read from \<open>vibe_audit.sensitive_fields\<close>, the detection of sensitive fields among
  the changed ones, the redaction of a document, and the field-level comparison of two documents.

  The pool handle of the struct is the parameter \<open>pool_get\<close> of \<open>refresh_cache\<close> (the result of
  \<open>pool.get()\<close>), and \<open>query\<close> is the result of the \<open>SELECT\<close> on a connection, a list of typed rows.
  The cache is a \<open>HashMap\<close>, here a map from \<open>schema.table\<close> to the fields in the order of the rows.
\<close>

section \<open>Model\<close>

record sensitive_match =
  sm_json_path :: string
  sm_redact :: bool

record db_sensitive_field =
  df_json_path :: string
  df_redact_in_log :: bool

type_synonym field_cache = "string \<Rightarrow> db_sensitive_field list option"

record field_registry =
  global_fields :: "string list"
  db_fields :: field_cache

definition new_registry :: "string \<Rightarrow> field_registry" where
  "new_registry global_fields_csv =
     \<lparr>global_fields = filter (\<lambda>s. s \<noteq> []) (map trim (split_char (CHR '','') global_fields_csv)),
      db_fields = Map.empty\<rparr>"

type_synonym field_row = "string \<times> string \<times> string \<times> bool"

definition table_key :: "string \<Rightarrow> string \<Rightarrow> string" where
  "table_key schema table = schema @ ''.'' @ table"

definition row_key :: "field_row \<Rightarrow> string" where
  "row_key r = (case r of (schema, table, json_path, redact) \<Rightarrow> table_key schema table)"

definition row_field :: "field_row \<Rightarrow> db_sensitive_field" where
  "row_field r = (case r of (schema, table, json_path, redact) \<Rightarrow>
     \<lparr>df_json_path = json_path, df_redact_in_log = redact\<rparr>)"

definition add_field_row :: "field_row \<Rightarrow> field_cache \<Rightarrow> field_cache" where
  "add_field_row r m =
     m(row_key r \<mapsto> (case m (row_key r) of None \<Rightarrow> [] | Some l \<Rightarrow> l) @ [row_field r])"

definition refresh_cache ::
  "'e + 'c \<Rightarrow> ('c \<Rightarrow> 'e + field_row list) \<Rightarrow> field_registry \<Rightarrow> field_registry" where
  "refresh_cache pool_get query reg =
     (case pool_get of
        Inl e \<Rightarrow> reg
      | Inr client \<Rightarrow>
          (case query client of
             Inl e \<Rightarrow> reg
           | Inr rows \<Rightarrow> reg\<lparr>db_fields := fold add_field_row rows Map.empty\<rparr>))"

subsection \<open>Detection\<close>

definition global_hit :: "field_registry \<Rightarrow> string \<Rightarrow> bool" where
  "global_hit reg field =
     (let normalized = trim_dollar_dot field
      in list_ex (\<lambda>g. g = normalized \<or> g = field) (global_fields reg))"

fun detect_global :: "field_registry \<Rightarrow> string list \<Rightarrow> sensitive_match list \<Rightarrow> sensitive_match list" where
  "detect_global reg [] matches = matches"
| "detect_global reg (field # fs) matches =
     detect_global reg fs
       (if global_hit reg field
        then matches @ [\<lparr>sm_json_path = field, sm_redact = True\<rparr>] else matches)"

definition db_hit :: "string \<Rightarrow> db_sensitive_field \<Rightarrow> bool" where
  "db_hit field db_field =
     (let normalized = trim_dollar_dot field;
          db_normalized = trim_dollar_dot (df_json_path db_field)
      in db_normalized = normalized \<or> db_normalized = field)"

fun detect_field ::
  "string \<Rightarrow> db_sensitive_field list \<Rightarrow> sensitive_match list \<Rightarrow> sensitive_match list" where
  "detect_field field [] matches = matches"
| "detect_field field (db_field # dfs) matches =
     detect_field field dfs
       (if db_hit field db_field
        then (if \<not> list_ex (\<lambda>m. sm_json_path m = field) matches
              then matches @ [\<lparr>sm_json_path = field, sm_redact = df_redact_in_log db_field\<rparr>]
              else matches)
        else matches)"

fun detect_db ::
  "db_sensitive_field list \<Rightarrow> string list \<Rightarrow> sensitive_match list \<Rightarrow> sensitive_match list" where
  "detect_db dfs [] matches = matches"
| "detect_db dfs (field # fs) matches = detect_db dfs fs (detect_field field dfs matches)"

definition detect ::
  "field_registry \<Rightarrow> string \<Rightarrow> string \<Rightarrow> string list \<Rightarrow> sensitive_match list" where
  "detect reg schema table changed_fields =
     (let matches = detect_global reg changed_fields []
      in case db_fields reg (table_key schema table) of
           Some dfs \<Rightarrow> detect_db dfs changed_fields matches
         | None \<Rightarrow> matches)"

subsection \<open>Redaction and comparison\<close>

definition redacted :: json where
  "redacted = JString ''[REDACTED]''"

definition match_key :: "sensitive_match \<Rightarrow> string" where
  "match_key m = trim_dollar_dot (sm_json_path m)"

definition redact_step :: "sensitive_match \<Rightarrow> jmap \<Rightarrow> jmap" where
  "redact_step m mp =
     (if sm_redact m \<and> contains_key mp (match_key m) then obj_insert (match_key m) redacted mp else mp)"

fun redact :: "json \<Rightarrow> sensitive_match list \<Rightarrow> json" where
  "redact (JObject mp) matches = JObject (fold redact_step matches mp)"
| "redact doc matches = doc"

fun diff_fields :: "json \<Rightarrow> json \<Rightarrow> string list" where
  "diff_fields (JObject old_map) (JObject new_map) =
     map fst (filter (\<lambda>(key, new_val).
         case obj_get old_map key of
           Some old_val \<Rightarrow> \<not> json_eq old_val new_val
         | None \<Rightarrow> True) new_map) @
     filter (\<lambda>key. \<not> contains_key new_map key) (obj_keys old_map)"
| "diff_fields _ _ = []"

fun all_fields :: "json \<Rightarrow> string list" where
  "all_fields (JObject m) = obj_keys m"
| "all_fields _ = []"

section \<open>Specification of detection\<close>

text \<open>The flag a changed field is matched with: globally configured names are always redacted,
  otherwise the first matching row of the table decides; \<open>None\<close> where nothing matches.\<close>

definition table_fields :: "field_registry \<Rightarrow> string \<Rightarrow> string \<Rightarrow> db_sensitive_field list" where
  "table_fields reg schema table =
     (case db_fields reg (table_key schema table) of Some dfs \<Rightarrow> dfs | None \<Rightarrow> [])"

definition sensitivity :: "field_registry \<Rightarrow> string \<Rightarrow> string \<Rightarrow> string \<Rightarrow> bool option" where
  "sensitivity reg schema table field =
     (if global_hit reg field then Some True
      else map_option df_redact_in_log (find (db_hit field) (table_fields reg schema table)))"

section \<open>Lemmas\<close>

interpretation cache: multi_map "\<lambda>m k. m k" "\<lambda>k v m. m(k \<mapsto> v)"
  by unfold_locales simp

lemma add_field_rows:
  "fold add_field_row rows m k =
     (if \<exists>r \<in> set rows. row_key r = k
      then Some ((case m k of None \<Rightarrow> [] | Some l \<Rightarrow> l) @ map row_field (filter (\<lambda>r. row_key r = k) rows))
      else m k)"
  using cache.lookup_grouped [of row_key row_field rows m k]
  by (simp add: add_field_row_def [abs_def])

lemma detect_global_eq:
  "detect_global reg fs ms =
     ms @ map (\<lambda>f. \<lparr>sm_json_path = f, sm_redact = True\<rparr>) (filter (global_hit reg) fs)"
  by (induction fs arbitrary: ms) auto

lemma detect_field_known:
  "\<exists>m \<in> set ms. sm_json_path m = f \<Longrightarrow> detect_field f dfs ms = ms"
  by (induction dfs arbitrary: ms) (auto simp: list_ex_iff)

lemma detect_field_eq:
  "detect_field f dfs ms =
     (if \<exists>m \<in> set ms. sm_json_path m = f then ms
      else case find (db_hit f) dfs of
             None \<Rightarrow> ms
           | Some d \<Rightarrow> ms @ [\<lparr>sm_json_path = f, sm_redact = df_redact_in_log d\<rparr>])"
proof (induction dfs arbitrary: ms)
  case Nil
  then show ?case by simp
next
  case (Cons d dfs)
  show ?case
  proof (cases "\<exists>m \<in> set ms. sm_json_path m = f")
    case True
    then show ?thesis using detect_field_known by metis
  next
    case False
    then show ?thesis
      using Cons detect_field_known
        [of "ms @ [\<lparr>sm_json_path = f, sm_redact = df_redact_in_log d\<rparr>]" f dfs]
      by (auto simp: list_ex_iff)
  qed
qed

lemma detect_db_set:
  "set (detect_db dfs fs ms) = set ms \<union>
     {\<lparr>sm_json_path = f, sm_redact = df_redact_in_log d\<rparr> | f d.
        f \<in> set fs \<and> (\<forall>m \<in> set ms. sm_json_path m \<noteq> f) \<and> find (db_hit f) dfs = Some d}"
proof (induction fs arbitrary: ms)
  case Nil
  then show ?case by simp
next
  case (Cons f fs)
  show ?case
  proof (cases "(\<exists>m \<in> set ms. sm_json_path m = f) \<or> find (db_hit f) dfs = None")
    case True
    then have "detect_field f dfs ms = ms" by (auto simp: detect_field_eq)
    with True Cons [of ms] show ?thesis by auto
  next
    case False
    then obtain d where d: "find (db_hit f) dfs = Some d" by auto
    with False have "detect_field f dfs ms = ms @ [\<lparr>sm_json_path = f, sm_redact = df_redact_in_log d\<rparr>]"
      by (auto simp: detect_field_eq)
    with False d Cons [of "ms @ [\<lparr>sm_json_path = f, sm_redact = df_redact_in_log d\<rparr>]"]
    show ?thesis by auto
  qed
qed

lemma detect_db_distinct:
  "distinct (map sm_json_path ms) \<Longrightarrow> distinct (map sm_json_path (detect_db dfs fs ms))"
proof (induction fs arbitrary: ms)
  case Nil
  then show ?case by simp
next
  case (Cons f fs)
  then have "distinct (map sm_json_path (detect_field f dfs ms))"
    by (auto simp: detect_field_eq split: option.splits)
  then show ?case by (simp add: Cons.IH)
qed

lemma detect_set:
  "m \<in> set (detect reg schema table fs) \<longleftrightarrow>
     sm_json_path m \<in> set fs \<and> sensitivity reg schema table (sm_json_path m) = Some (sm_redact m)"
proof -
  have m: "m = \<lparr>sm_json_path = f, sm_redact = b\<rparr> \<longleftrightarrow> sm_json_path m = f \<and> sm_redact m = b" for f b
    by (cases m) auto
  show ?thesis
    by (auto simp: detect_def detect_global_eq detect_db_set sensitivity_def table_fields_def m
        split: option.splits if_splits)
qed

lemma redact_step_lookup:
  "redact_step m mp =
     (if sm_redact m \<and> obj_get mp (match_key m) \<noteq> None then obj_insert (match_key m) redacted mp else mp)"
  by (simp add: redact_step_def contains_key_def)

lemma obj_get_redact:
  "obj_get (fold redact_step ms mp) k =
     (if (\<exists>m \<in> set ms. sm_redact m \<and> match_key m = k) \<and> obj_get mp k \<noteq> None
      then Some redacted else obj_get mp k)"
  using obj.lookup_masked [where p = sm_redact and key = match_key and v = redacted and xs = ms]
  by (simp add: redact_step_lookup [abs_def])

lemma keys_redact_step: "set (obj_keys (redact_step m mp)) = set (obj_keys mp)"
  by (auto simp: redact_step_def set_keys_insert contains_key_iff)

lemma keys_redact: "set (obj_keys (fold redact_step ms mp)) = set (obj_keys mp)"
  by (induction ms arbitrary: mp) (auto simp: keys_redact_step)

lemma wf_redact: "wf_obj mp \<Longrightarrow> wf_obj (fold redact_step ms mp)"
  by (induction ms arbitrary: mp) (auto simp: redact_step_def wf_obj_insert)

lemma jget_redact:
  "jget (redact doc ms) k =
     (if (\<exists>m \<in> set ms. sm_redact m \<and> match_key m = k) \<and> jlookup doc k \<noteq> None
      then redacted else jget doc k)"
  by (cases doc) (auto simp: jget_def obj_get_redact)

lemma diff_fields_set:
  assumes "wf_obj old_map" and "wf_obj new_map"
  shows "k \<in> set (diff_fields (JObject old_map) (JObject new_map)) \<longleftrightarrow>
    (case (obj_get old_map k, obj_get new_map k) of
       (None, None) \<Rightarrow> False
     | (Some a, Some b) \<Rightarrow> \<not> json_eq a b
     | _ \<Rightarrow> True)"
proof -
  have "k \<in> set (map fst (filter (\<lambda>(key, new_val).
         case obj_get old_map key of Some old_val \<Rightarrow> \<not> json_eq old_val new_val | None \<Rightarrow> True) new_map)) \<longleftrightarrow>
      (\<exists>v. obj_get new_map k = Some v \<and>
         (case obj_get old_map k of Some old_val \<Rightarrow> \<not> json_eq old_val v | None \<Rightarrow> True))"
    using wf_obj_get [OF assms(2)] by force
  then show ?thesis
    by (auto simp: contains_key_iff [symmetric] contains_key_def split: option.splits)
qed

lemma distinct_diff_fields:
  assumes "wf_obj old_map" and "wf_obj new_map"
  shows "distinct (diff_fields (JObject old_map) (JObject new_map))"
proof -
  have "distinct (map fst (filter P new_map))" for P
    using wf_obj_distinct [OF assms(2)] by (simp add: obj_keys_def distinct_map_filter)
  moreover have "distinct (filter P (obj_keys old_map))" for P
    using wf_obj_distinct [OF assms(1)] by simp
  ultimately show ?thesis
    by (auto simp: contains_key_iff obj_keys_def)
qed

section \<open>Properties\<close>

text \<open>C20: Detection is complete and exact. A match is reported for a changed field exactly when the
  field is sensitive for the table, with the flag that decides: a globally configured name is always
  redacted, otherwise the first row of the table whose normalised path is the field's. No field is
  reported twice when the changed fields are distinct.\<close>

theorem detect_exact:
  assumes "distinct changed_fields"
  shows "(m \<in> set (detect reg schema table changed_fields) \<longleftrightarrow>
      sm_json_path m \<in> set changed_fields \<and>
      sensitivity reg schema table (sm_json_path m) = Some (sm_redact m)) \<and>
    distinct (map sm_json_path (detect reg schema table changed_fields))"
proof -
  have "distinct (map sm_json_path (detect_global reg changed_fields []))"
    using assms by (simp add: detect_global_eq comp_def)
  then have "distinct (map sm_json_path (detect reg schema table changed_fields))"
    by (auto simp: detect_def Let_def detect_db_distinct split: option.splits)
  then show ?thesis by (simp add: detect_set)
qed

text \<open>A registry with one global name and two rows of one table, for the examples.\<close>

definition sample_registry :: field_registry where
  "sample_registry = refresh_cache (Inr () :: unit + unit)
     (\<lambda>_. Inr [(''public'', ''cards'', ''$.pan'', True), (''public'', ''cards'', ''status'', False)])
     (new_registry ''ssn, cvv'')"

theorem detect_exact_witness:
  "\<lparr>sm_json_path = ''pan'', sm_redact = True\<rparr> \<in> set (detect sample_registry ''public'' ''cards'' [''id'', ''pan''])"
proof -
  have "sensitivity sample_registry ''public'' ''cards'' ''pan'' = Some True" by code_simp
  then show ?thesis
    using detect_exact [of "[''id'', ''pan'']" "\<lparr>sm_json_path = ''pan'', sm_redact = True\<rparr>"
      sample_registry "''public''" "''cards''"] by simp
qed

text \<open>C21: Redaction overwrites exactly the fields that are matched with the redact flag and present in
  the document, and leaves every other field, the set of keys and their order as they were.\<close>

theorem redact_exact:
  assumes "wf_obj mp"
  shows "\<exists>mp'. redact (JObject mp) matches = JObject mp' \<and> obj_keys mp' = obj_keys mp \<and>
    (\<forall>k. obj_get mp' k =
       (if k \<in> match_key ` {m \<in> set matches. sm_redact m} \<and> k \<in> set (obj_keys mp)
        then Some (JString ''[REDACTED]'') else obj_get mp k))"
proof -
  let ?mp' = "fold redact_step matches mp"
  have "sorted_wrt (<) (obj_keys ?mp')" "sorted_wrt (<) (obj_keys mp)"
    using assms wf_redact [OF assms] by (simp_all add: wf_obj_def)
  then have "obj_keys ?mp' = obj_keys mp"
    by (intro strict_sorted_equal) (simp_all add: keys_redact)
  then show ?thesis
    by (auto simp: obj_get_redact redacted_def contains_key_iff [symmetric] contains_key_def)
qed

theorem redact_exact_witness:
  "obj_keys (case redact (JObject [(''name'', JString ''A''), (''pan'', JString ''4111'')])
      [\<lparr>sm_json_path = ''$.pan'', sm_redact = True\<rparr>] of JObject m \<Rightarrow> m | _ \<Rightarrow> []) = [''name'', ''pan'']"
  using redact_exact [of "[(''name'', JString ''A''), (''pan'', JString ''4111'')]"
    "[\<lparr>sm_json_path = ''$.pan'', sm_redact = True\<rparr>]"]
  by (auto simp: wf_obj_Cons)

text \<open>Redaction sees the top level of a document only: a field that no redacting match names keeps
  its whole value, with everything nested in it, whatever paths the matches have.\<close>

theorem redact_keeps_nested:
  assumes "\<forall>m \<in> set matches. match_key m \<noteq> k"
  shows "jget (redact doc matches) k = jget doc k"
  using assms by (auto simp: jget_redact)

theorem redact_keeps_nested_witness:
  "jget (jget (redact (jobj [(''data'', jobj [(''pan'', JString ''4111'')])])
     [\<lparr>sm_json_path = ''$.pan'', sm_redact = True\<rparr>]) ''data'') ''pan'' = JString ''4111''"
  using redact_keeps_nested [of "[\<lparr>sm_json_path = ''$.pan'', sm_redact = True\<rparr>]" "''data''"
    "jobj [(''data'', jobj [(''pan'', JString ''4111'')])]"]
  by (simp add: match_key_def json_simps)

text \<open>\<open>diff_fields\<close> lists each changed field once: the fields of either object that the other lacks
  and the common fields whose values differ.\<close>

theorem diff_fields_exact:
  assumes "wf_obj old_map" and "wf_obj new_map"
  shows "distinct (diff_fields (JObject old_map) (JObject new_map)) \<and>
    (k \<in> set (diff_fields (JObject old_map) (JObject new_map)) \<longleftrightarrow>
      (case (obj_get old_map k, obj_get new_map k) of
         (None, None) \<Rightarrow> False
       | (Some a, Some b) \<Rightarrow> \<not> json_eq a b
       | _ \<Rightarrow> True))"
  using diff_fields_set [OF assms] distinct_diff_fields [OF assms] by blast

theorem diff_fields_exact_witness:
  "''b'' \<in> set (diff_fields (JObject [(''a'', JNull), (''b'', JBool True)]) (JObject [(''a'', JNull)])) \<and>
   ''a'' \<notin> set (diff_fields (JObject [(''a'', JNull), (''b'', JBool True)]) (JObject [(''a'', JNull)]))"
  using diff_fields_exact [of "[(''a'', JNull), (''b'', JBool True)]" "[(''a'', JNull)]" "''b''"]
    diff_fields_exact [of "[(''a'', JNull), (''b'', JBool True)]" "[(''a'', JNull)]" "''a''"]
  by (simp add: wf_obj_Cons obj_get_Cons)

text \<open>A refresh that reaches the database replaces the cache by the rows it read, grouped by table
  and in their order; one that fails, at the pool or at the query, leaves the registry as it was. The
  global names never change.\<close>

theorem refresh_cache_exact:
  "db_fields (refresh_cache (Inr c) query reg) (table_key schema table) =
     (case query c of
        Inl e \<Rightarrow> db_fields reg (table_key schema table)
      | Inr rows \<Rightarrow>
          (let mine = filter (\<lambda>r. row_key r = table_key schema table) rows
           in if mine = [] then None else Some (map row_field mine))) \<and>
   refresh_cache (Inl err) query reg = reg \<and>
   global_fields (refresh_cache pool_get query reg) = global_fields reg"
  by (auto simp: refresh_cache_def add_field_rows Let_def filter_empty_conv split: sum.splits)

text \<open>The configured global names are the comma-separated pieces without surrounding white space,
  none of them empty and none with a comma.\<close>

theorem new_registry_names:
  "db_fields (new_registry csv) key = None \<and> [] \<notin> set (global_fields (new_registry csv)) \<and>
   (g \<in> set (global_fields (new_registry csv)) \<longleftrightarrow>
      g \<noteq> [] \<and> g \<in> trim ` set (split_char (CHR '','') csv))"
  by (auto simp: new_registry_def)

end
