(* ===== verification/WalCapture.thy ===== *)
theory WalCapture
  imports Sensitive
begin

text \<open>
  WAL capture (\<open>forwarder/src/walcapture.rs\<close>): the parser of \<open>test_decoding\<close> lines, the conversion
  of a row to a JSON document, the change event, and the polling loop over a batch of rows.

  Parameters: \<open>from_str\<close> is \<open>serde_json::from_str::<Value>\<close> (\<open>None\<close> for a parse error) and \<open>now\<close>
  the formatted current time. The parser walks the white-space separated parts of the column data;
  the index \<open>i\<close> of the source is the position in the list, so the parts from \<open>i\<close> on are the rest of
  the list.
\<close>

section \<open>Parsing a change line\<close>

record parsed_column =
  pc_name :: string
  pc_value :: string
  pc_is_old :: bool

text \<open>Does the value end here: a quote that is not the second of two?\<close>

definition closes :: "string \<Rightarrow> bool" where
  "closes v \<longleftrightarrow> ends_with v [quote_char] \<and> \<not> ends_with (take (length v - 1) v) [quote_char]"

text \<open>The loop that collects a quoted value: the value so far, its opening quote removed, and the
  parts after the current one; the result is the value and the parts that are left.\<close>

fun read_quoted :: "string \<Rightarrow> string list \<Rightarrow> string \<times> string list" where
  "read_quoted v [] = (if closes v then take (length v - 1) v else trim_end_quotes v, [])"
| "read_quoted v (p # ps) =
     (if closes v then (take (length v - 1) v, p # ps)
      else read_quoted (v @ '' '' @ p) ps)"

lemma length_read_quoted: "length (snd (read_quoted v ps)) \<le> length ps"
  by (induction v ps rule: read_quoted.induct) auto

function parse_parts :: "bool \<Rightarrow> string list \<Rightarrow> parsed_column list" where
  "parse_parts is_old [] = []"
| "parse_parts is_old (part # ps) =
     (if part = ''old-key:'' then parse_parts True ps
      else if part = ''new-tuple:'' then parse_parts False ps
      else
        case find_char (CHR ''['') part of
          None \<Rightarrow> parse_parts is_old ps
        | Some bracket_pos \<Rightarrow>
            (let name = take bracket_pos part;
                 rest_of_col = drop bracket_pos part
             in case find_char (CHR '':'') rest_of_col of
                  None \<Rightarrow> parse_parts is_old ps
                | Some colon_pos \<Rightarrow>
                    (let value = drop (colon_pos + 1) rest_of_col
                     in if starts_with value [quote_char]
                        then
                          (let (raw, ps') = read_quoted (drop 1 value) ps
                           in \<lparr>pc_name = name, pc_value = undouble_quotes raw, pc_is_old = is_old\<rparr> #
                              parse_parts is_old ps')
                        else
                          \<lparr>pc_name = name, pc_value = value, pc_is_old = is_old\<rparr> #
                          parse_parts is_old ps)))"
  by pat_completeness auto
termination
proof (relation "measure (\<lambda>(is_old, ps). length ps)", goal_cases)
  case (6 is_old part ps b x xa a v xb raw ps')
  then have "length ps' \<le> length ps"
    using length_read_quoted [of "drop 1 v" ps] by (metis snd_conv)
  then show ?case by simp
qed auto

definition parse_column_values :: "string \<Rightarrow> parsed_column list" where
  "parse_column_values data = parse_parts False (split_whitespace data)"

definition parse_change_line ::
  "string \<Rightarrow> (string \<times> string \<times> string \<times> parsed_column list) option" where
  "parse_change_line line =
     (let data = trim line
      in if \<not> starts_with data ''table '' then None
         else
           let after_table = drop 6 data
           in case find_char (CHR '':'') after_table of
                None \<Rightarrow> None
              | Some first_colon \<Rightarrow>
                  (let full_table = trim (take first_colon after_table);
                       after_first_colon = trim (drop (first_colon + 1) after_table)
                   in case find_char (CHR '':'') after_first_colon of
                        None \<Rightarrow> None
                      | Some second_colon \<Rightarrow>
                          (let command = trim (take second_colon after_first_colon);
                               col_data = trim (drop (second_colon + 1) after_first_colon);
                               (schema, table) =
                                 (case find_char (CHR ''.'') full_table of
                                    Some dot \<Rightarrow> (take dot full_table, drop (dot + 1) full_table)
                                  | None \<Rightarrow> (''public'', full_table));
                               columns = parse_column_values col_data
                           in Some (command, schema, table, columns))))"

section \<open>Documents\<close>

definition split_old_new_columns ::
  "parsed_column list \<Rightarrow> parsed_column list \<times> parsed_column list" where
  "split_old_new_columns columns =
     (filter pc_is_old columns, filter (\<lambda>c. \<not> pc_is_old c) columns)"

definition insert_column_value ::
  "(string \<Rightarrow> json option) \<Rightarrow> parsed_column \<Rightarrow> jmap \<Rightarrow> jmap" where
  "insert_column_value from_str col m =
     (if pc_value col = ''null'' then obj_insert (pc_name col) JNull m
      else
        case from_str (pc_value col) of
          Some parsed \<Rightarrow>
            (if pc_name col = ''data'' \<or> is_object parsed \<or> is_array parsed
             then obj_insert (pc_name col) parsed m
             else obj_insert (pc_name col) (JString (pc_value col)) m)
        | None \<Rightarrow> obj_insert (pc_name col) (JString (pc_value col)) m)"

definition columns_to_jsonb :: "(string \<Rightarrow> json option) \<Rightarrow> parsed_column list \<Rightarrow> json" where
  "columns_to_jsonb from_str columns = JObject (fold (insert_column_value from_str) columns [])"

section \<open>The change event\<close>

definition option_json :: "json option \<Rightarrow> json" where
  "option_json x = (case x of Some v \<Rightarrow> v | None \<Rightarrow> JNull)"

definition build_data_change_event ::
  "string \<Rightarrow> string \<Rightarrow> string \<Rightarrow> string \<Rightarrow> json option \<Rightarrow> json option \<Rightarrow> string list \<Rightarrow>
   sensitive_match list \<Rightarrow> string \<Rightarrow> string \<Rightarrow> json" where
  "build_data_change_event now command_tag schema table old_data new_data changed_fields
       sensitive_matches xid lsn =
     (let sensitive_touched = map sm_json_path sensitive_matches
      in jobj
        [(''event_type'', JString ''DATA_CHANGE''),
         (''event_time'', JString now),
         (''success'', JBool True),
         (''session_user'', JNull),
         (''client_addr'', JNull),
         (''client_port'', JNull),
         (''database'', JNull),
         (''pid'', JNull),
         (''application'', JString ''vibe_audit_forwarder''),
         (''command_tag'', JString command_tag),
         (''object_type'', JString ''TABLE''),
         (''object_name'', JString table),
         (''schema_name'', JString schema),
         (''query_text'', JNull),
         (''sqlstate'', JNull),
         (''detail'', jobj
            [(''source'', JString ''wal''),
             (''xid'', JString xid),
             (''lsn'', JString lsn),
             (''old_data'', option_json old_data),
             (''new_data'', option_json new_data),
             (''changed_fields'', JArray (map JString changed_fields)),
             (''sensitive_fields_touched'', JArray (map JString sensitive_touched))])])"

text \<open>The two documents of a change, \<open>None\<close> for a command that is not recorded.\<close>

definition change_documents ::
  "(string \<Rightarrow> json option) \<Rightarrow> string \<Rightarrow> parsed_column list \<Rightarrow> (json option \<times> json option) option" where
  "change_documents from_str command_tag columns =
     (if command_tag = ''INSERT'' then
        (let new_doc = columns_to_jsonb from_str columns in Some (None, Some new_doc))
      else if command_tag = ''UPDATE'' then
        (let (old_cols, new_cols) = split_old_new_columns columns;
             old_doc = (if old_cols = [] then None else Some (columns_to_jsonb from_str old_cols));
             new_doc = columns_to_jsonb from_str new_cols
         in Some (old_doc, Some new_doc))
      else if command_tag = ''DELETE'' then
        (let old_doc = columns_to_jsonb from_str columns in Some (Some old_doc, None))
      else None)"

fun changed_fields_of :: "json option \<Rightarrow> json option \<Rightarrow> string list" where
  "changed_fields_of (Some old) (Some new) = diff_fields old new"
| "changed_fields_of None (Some new) = all_fields new"
| "changed_fields_of (Some old) None = all_fields old"
| "changed_fields_of None None = []"

definition redact_matches :: "sensitive_match list \<Rightarrow> json option \<Rightarrow> json option" where
  "redact_matches matches doc =
     (if matches \<noteq> [] then map_option (\<lambda>d. redact d matches) doc else doc)"

definition parse_test_decoding ::
  "(string \<Rightarrow> json option) \<Rightarrow> string \<Rightarrow> field_registry \<Rightarrow> string \<Rightarrow> string \<Rightarrow> string \<Rightarrow> json list option" where
  "parse_test_decoding from_str now registry data xid lsn =
     (if starts_with data ''BEGIN'' \<or> starts_with data ''COMMIT'' then None
      else
        case parse_change_line data of
          None \<Rightarrow> None
        | Some (command_tag, schema, table, columns) \<Rightarrow>
            (case change_documents from_str command_tag columns of
               None \<Rightarrow> None
             | Some (old_data, new_data) \<Rightarrow>
                 (let changed_fields = changed_fields_of old_data new_data;
                      matches = detect registry schema table changed_fields;
                      old_out = redact_matches matches old_data;
                      new_out = redact_matches matches new_data;
                      event = build_data_change_event now command_tag schema table old_out new_out
                                changed_fields matches xid lsn
                  in Some [event])))"

section \<open>The polling loop\<close>

text \<open>
  A row of \<open>pg_logical_slot_get_changes\<close>: position, transaction and text. \<open>now\<close> is read once per
  event, so it comes with the row. The state is what the worker shares with the health endpoint;
  \<open>sender\<close> tells for each event whether the channel still accepts it, in the order they are sent.
\<close>

record wal_row =
  wr_lsn :: string
  wr_xid :: string
  wr_data :: string
  wr_now :: string

record wal_state =
  wal_lsn :: string
  wal_event_count :: "64 word"
  wal_sent :: "json list"

fun send_events :: "(json \<Rightarrow> bool) \<Rightarrow> json list \<Rightarrow> wal_state \<Rightarrow> wal_state \<times> bool" where
  "send_events open_for [] s = (s, True)"
| "send_events open_for (event # events) s =
     (let s1 = s\<lparr>wal_event_count := wal_event_count s + 1\<rparr>
      in if open_for event then send_events open_for events (s1\<lparr>wal_sent := wal_sent s1 @ [event]\<rparr>)
         else (s1, False))"

text \<open>The body of the poll: \<open>False\<close> is the early return because the channel is closed. The registry is
  shared with the task that refreshes it, so every row finds its own: \<open>registry row\<close> is what the read
  lock shows when the row (told apart by its position in the log) is parsed.\<close>

fun process_rows ::
  "(string \<Rightarrow> json option) \<Rightarrow> (wal_row \<Rightarrow> field_registry) \<Rightarrow> (json \<Rightarrow> bool) \<Rightarrow> wal_row list \<Rightarrow> wal_state \<Rightarrow>
   wal_state \<times> bool" where
  "process_rows from_str registry open_for [] s = (s, True)"
| "process_rows from_str registry open_for (row # rows) s =
     (let s1 = s\<lparr>wal_lsn := wr_lsn row\<rparr>
      in case parse_test_decoding from_str (wr_now row) (registry row) (wr_data row) (wr_xid row) (wr_lsn row) of
           None \<Rightarrow> process_rows from_str registry open_for rows s1
         | Some events \<Rightarrow>
             (let (s2, more) = send_events open_for events s1
              in if more then process_rows from_str registry open_for rows s2 else (s2, False)))"

text \<open>
  The worker around it. The database answers are a script: \<open>pool_get\<close>, whether the slot exists, the
  creation of the slot, and one answer per poll (an error or the rows). \<open>Polling\<close> is a worker that
  has used up the script and would poll again.
\<close>

datatype 'e run_exit = RunFailed 'e | RunEnded | Polling

fun poll_loop ::
  "(string \<Rightarrow> json option) \<Rightarrow> (wal_row \<Rightarrow> field_registry) \<Rightarrow> (json \<Rightarrow> bool) \<Rightarrow> ('e + wal_row list) list \<Rightarrow>
   wal_state \<Rightarrow> wal_state \<times> 'e run_exit" where
  "poll_loop from_str registry open_for [] s = (s, Polling)"
| "poll_loop from_str registry open_for (Inl e # polls) s = (s, RunFailed e)"
| "poll_loop from_str registry open_for (Inr rows # polls) s =
     (if rows = [] then poll_loop from_str registry open_for polls s
      else
        let (s1, more) = process_rows from_str registry open_for rows s
        in if more then poll_loop from_str registry open_for polls s1 else (s1, RunEnded))"

record ('e, 'c) wal_session =
  ws_pool_get :: "'e + 'c"
  ws_slot_exists :: "'c \<Rightarrow> 'e + bool"
  ws_create_slot :: "'c \<Rightarrow> 'e + 64 word"
  ws_polls :: "('e + wal_row list) list"

definition run_inner ::
  "(string \<Rightarrow> json option) \<Rightarrow> (wal_row \<Rightarrow> field_registry) \<Rightarrow> (json \<Rightarrow> bool) \<Rightarrow> ('e, 'c) wal_session \<Rightarrow>
   wal_state \<Rightarrow> wal_state \<times> 'e run_exit" where
  "run_inner from_str registry open_for env s =
     (case ws_pool_get env of
        Inl e \<Rightarrow> (s, RunFailed e)
      | Inr client \<Rightarrow>
          (case ws_slot_exists env client of
             Inl e \<Rightarrow> (s, RunFailed e)
           | Inr slot_exists \<Rightarrow>
               (case (if \<not> slot_exists then ws_create_slot env client else Inr 0) of
                  Inl e \<Rightarrow> (s, RunFailed e)
                | Inr n \<Rightarrow> poll_loop from_str registry open_for (ws_polls env) s)))"

text \<open>\<open>run\<close> starts a new session whenever one ends, with an error or without.\<close>

fun wal_run ::
  "(string \<Rightarrow> json option) \<Rightarrow> (wal_row \<Rightarrow> field_registry) \<Rightarrow> (json \<Rightarrow> bool) \<Rightarrow> ('e, 'c) wal_session list \<Rightarrow>
   wal_state \<Rightarrow> wal_state" where
  "wal_run from_str registry open_for [] s = s"
| "wal_run from_str registry open_for (env # envs) s =
     (let (s1, exit) = run_inner from_str registry open_for env s
      in case exit of
           Polling \<Rightarrow> s1
         | _ \<Rightarrow> wal_run from_str registry open_for envs s1)"

end
