(* ===== verification/WalFormat.thy ===== *)
theory WalFormat
  imports WalCapture
begin

text \<open>
  The text format the WAL parser reads, as a specification: what \<open>test_decoding\<close> prints for a row
  whose type names have no white space. A text value is printed between quotes with its quotes
  doubled; it is given here as its words, since the parser sees it cut at white space. Schema, table
  and column names are printed as identifiers: a name that is not a plain lower-case one, or that is
  a keyword, between double quotes. \<open>faithful\<close> says for which columns the parser is exact, and the
  properties say what happens outside of it.
\<close>

section \<open>The format\<close>

datatype column_text = Plain string | Quoted "string list"

record rendered_column =
  rc_name :: string
  rc_type :: string
  rc_text :: column_text

datatype item = OldKey | NewTuple | Column rendered_column

fun double_char :: "char \<Rightarrow> string \<Rightarrow> string" where
  "double_char q [] = []"
| "double_char q (c # s) = (if c = q then q # q # double_char q s else c # double_char q s)"

abbreviation double_quotes :: "string \<Rightarrow> string" where
  "double_quotes \<equiv> double_char quote_char"

definition column_prefix :: "rendered_column \<Rightarrow> string" where
  "column_prefix c = rc_name c @ ''['' @ rc_type c @ '']:''"

fun render_text :: "column_text \<Rightarrow> string" where
  "render_text (Plain v) = v"
| "render_text (Quoted ws) = quote_char # double_quotes (join_words ws) @ [quote_char]"

fun render_item :: "item \<Rightarrow> string" where
  "render_item OldKey = ''old-key:''"
| "render_item NewTuple = ''new-tuple:''"
| "render_item (Column c) = column_prefix c @ render_text (rc_text c)"

definition render_items :: "item list \<Rightarrow> string" where
  "render_items items = join_words (map render_item items)"

definition render_line :: "string \<Rightarrow> string \<Rightarrow> string \<Rightarrow> item list \<Rightarrow> string" where
  "render_line command schema table items =
     ''table '' @ schema @ ''.'' @ table @ '': '' @ command @ '': '' @ render_items items"

text \<open>\<open>quote_identifier\<close> of the server; \<open>keyword\<close> are the words it quotes.\<close>

definition safe_identifier :: "(string \<Rightarrow> bool) \<Rightarrow> string \<Rightarrow> bool" where
  "safe_identifier keyword s \<longleftrightarrow>
     s \<noteq> [] \<and> hd s \<in> set ''abcdefghijklmnopqrstuvwxyz_'' \<and>
     list_all (\<lambda>c. c \<in> set ''abcdefghijklmnopqrstuvwxyz0123456789_'') s \<and> \<not> keyword s"

definition quote_identifier :: "(string \<Rightarrow> bool) \<Rightarrow> string \<Rightarrow> string" where
  "quote_identifier keyword s =
     (if safe_identifier keyword s then s else CHR 0x22 # double_char (CHR 0x22) s @ [CHR 0x22])"

fun quote_item :: "(string \<Rightarrow> bool) \<Rightarrow> item \<Rightarrow> item" where
  "quote_item keyword (Column c) = Column (c\<lparr>rc_name := quote_identifier keyword (rc_name c)\<rparr>)"
| "quote_item keyword i = i"

text \<open>The line the server prints for a change of a row.\<close>

definition print_change ::
  "(string \<Rightarrow> bool) \<Rightarrow> string \<Rightarrow> string \<Rightarrow> string \<Rightarrow> item list \<Rightarrow> string" where
  "print_change keyword command schema table items =
     render_line command (quote_identifier keyword schema) (quote_identifier keyword table)
       (map (quote_item keyword) items)"

fun text_value :: "column_text \<Rightarrow> string" where
  "text_value (Plain v) = v"
| "text_value (Quoted ws) = join_words ws"

text \<open>The columns a parser should find, old ones after \<open>old-key:\<close> and new ones after \<open>new-tuple:\<close>.\<close>

fun columns_of_items :: "bool \<Rightarrow> item list \<Rightarrow> parsed_column list" where
  "columns_of_items is_old [] = []"
| "columns_of_items is_old (OldKey # items) = columns_of_items True items"
| "columns_of_items is_old (NewTuple # items) = columns_of_items False items"
| "columns_of_items is_old (Column c # items) =
     \<lparr>pc_name = rc_name c, pc_value = text_value (rc_text c), pc_is_old = is_old\<rparr> #
     columns_of_items is_old items"

text \<open>The values the parser reads back: unquoted ones without white space that do not start with a
  quote, and quoted ones whose words are separated by single spaces and whose last character is not
  a quote. Only the first and the last word of a quoted value may be empty.\<close>

fun inner_words :: "string list \<Rightarrow> string list" where
  "inner_words ws = butlast (tl ws)"

fun faithful_text :: "column_text \<Rightarrow> bool" where
  "faithful_text (Plain v) \<longleftrightarrow> no_ws v \<and> \<not> starts_with v [quote_char]"
| "faithful_text (Quoted ws) \<longleftrightarrow>
     ws \<noteq> [] \<and> list_all no_ws ws \<and> [] \<notin> set (inner_words ws) \<and>
     \<not> ends_with (join_words ws) [quote_char]"

definition faithful_column :: "rendered_column \<Rightarrow> bool" where
  "faithful_column c \<longleftrightarrow>
     no_ws (rc_name c) \<and> CHR ''['' \<notin> set (rc_name c) \<and>
     no_ws (rc_type c) \<and> CHR '':'' \<notin> set (rc_type c) \<and> faithful_text (rc_text c)"

fun faithful :: "item \<Rightarrow> bool" where
  "faithful (Column c) \<longleftrightarrow> faithful_column c"
| "faithful _ \<longleftrightarrow> True"

section \<open>Quoting\<close>

lemma undouble_double: "undouble_quotes (double_quotes s) = s"
proof (induction s)
  case Nil
  then show ?case by simp
next
  case (Cons c s)
  show ?case
  proof (cases "c = quote_char")
    case True
    with Cons show ?thesis by simp
  next
    case False
    then have "undouble_quotes (c # t) = c # undouble_quotes t" for t by (cases t) auto
    with False Cons show ?thesis by simp
  qed
qed

lemma double_quotes_append: "double_char q (s @ t) = double_char q s @ double_char q t"
  by (induction s) auto

lemma double_quotes_Nil [simp]: "double_char q s = [] \<longleftrightarrow> s = []"
  by (cases s) auto

lemma last_double_quotes: "s \<noteq> [] \<Longrightarrow> last (double_quotes s) = last s"
  by (cases s rule: rev_cases) (auto simp: double_quotes_append)

text \<open>Doubling leaves no place where a quoted value could end, and the closing quote is one when the
  value itself does not end with a quote.\<close>

lemma not_closes_double: "\<not> closes (double_quotes s)"
  by (cases s rule: rev_cases) (auto simp: closes_def double_quotes_append)

lemma closes_double_end:
  "closes (double_quotes s @ [quote_char]) \<longleftrightarrow> \<not> ends_with s [quote_char]"
  by (auto simp: closes_def last_double_quotes)

lemma no_ws_double_char:
  assumes "ascii q"
  shows "no_ws s \<Longrightarrow> no_ws (double_char q s)"
proof (induction s)
  case Nil
  then show ?case by simp
next
  case (Cons c s)
  have "ws_len (c # double_char q s) = ws_len (c # s)"
  proof (cases s)
    case Nil
    then show ?thesis by simp
  next
    case (Cons d s')
    show ?thesis
    proof (cases "d = q")
      case True
      with Cons show ?thesis
        using ws_len_append_ascii [OF assms, of c "[]"] by (simp add: ascii_not_continuation assms)
    next
      case False
      show ?thesis
      proof (cases s')
        case Nil
        with False \<open>s = d # s'\<close> show ?thesis by simp
      next
        case (Cons e s'')
        with False \<open>s = d # s'\<close> show ?thesis
          using ws_len_append_ascii [OF assms, of c "[d]"] by (cases "e = q") (auto simp: ascii_not_continuation assms)
      qed
    qed
  qed
  with Cons assms show ?case by (auto simp: ws_len_ascii)
qed

lemma no_ws_double: "no_ws s \<Longrightarrow> no_ws (double_quotes s)"
  by (simp add: no_ws_double_char)

lemma set_double_char: "set (double_char q s) = set s"
  by (induction s) auto

lemma read_quoted_end:
  "\<not> ends_with s [quote_char] \<Longrightarrow>
     read_quoted (double_quotes s @ [quote_char]) rest = (double_quotes s, rest)"
  using closes_double_end [of s] by (cases rest) simp_all

lemma read_quoted_words:
  assumes "\<not> ends_with (s @ concat (map (Cons space_char) (ws @ [w]))) [quote_char]"
  shows "read_quoted (double_quotes s) (map double_quotes ws @ (double_quotes w @ [quote_char]) # rest) =
     (double_quotes (s @ concat (map (Cons space_char) (ws @ [w]))), rest)"
  using assms
proof (induction ws arbitrary: s)
  case Nil
  then show ?case
    using read_quoted_end [of "s @ space_char # w" rest]
    by (simp add: not_closes_double double_quotes_append)
next
  case (Cons u ws)
  have "double_quotes s @ '' '' @ double_quotes u = double_quotes (s @ space_char # u)"
    by (simp add: double_quotes_append)
  with Cons.IH [of "s @ space_char # u"] Cons.prems show ?case
    by (simp add: not_closes_double)
qed

lemma join_words_concat: "join_words (w # ws) = w @ concat (map (Cons space_char) ws)"
  by (induction ws arbitrary: w) auto

section \<open>Parts\<close>

text \<open>The white-space separated parts an item is cut into.\<close>

fun text_parts :: "string \<Rightarrow> column_text \<Rightarrow> string list" where
  "text_parts pre (Plain v) = [pre @ v]"
| "text_parts pre (Quoted []) = [pre @ [quote_char, quote_char]]"
| "text_parts pre (Quoted [w]) = [pre @ quote_char # double_quotes w @ [quote_char]]"
| "text_parts pre (Quoted (w # v # ws)) =
     (pre @ quote_char # double_quotes w) # map double_quotes (butlast (v # ws)) @
     [double_quotes (last (v # ws)) @ [quote_char]]"

lemma text_parts_many:
  "us \<noteq> [] \<Longrightarrow> text_parts pre (Quoted (w # us)) =
     (pre @ quote_char # double_quotes w) # map double_quotes (butlast us) @
     [double_quotes (last us) @ [quote_char]]"
  by (cases us) (simp_all del: butlast.simps last.simps list.map)

fun item_parts :: "item \<Rightarrow> string list" where
  "item_parts (Column c) = text_parts (column_prefix c) (rc_text c)"
| "item_parts i = [render_item i]"

lemma split_last: "ws \<noteq> [] \<Longrightarrow> \<exists>us u. ws = us @ [u]"
  by (cases ws rule: rev_cases) auto

lemma join_words_append:
  "vs \<noteq> [] \<Longrightarrow> us \<noteq> [] \<Longrightarrow> join_words (us @ vs) = join_words us @ space_char # join_words vs"
  by (induction us rule: join_words.induct) (auto simp: join_words_Cons)

lemma join_words_join:
  "\<forall>ps \<in> set pss. ps \<noteq> [] \<Longrightarrow> join_words (map join_words pss) = join_words (concat pss)"
proof (induction pss)
  case Nil
  then show ?case by simp
next
  case (Cons ps pss)
  show ?case
  proof (cases "pss = []")
    case True
    then show ?thesis by simp
  next
    case False
    with Cons.prems have "concat pss \<noteq> []" by (cases pss) auto
    with False Cons show ?thesis by (simp add: join_words_Cons join_words_append)
  qed
qed

lemma double_quotes_join: "double_quotes (join_words ws) = join_words (map double_quotes ws)"
  by (induction ws rule: join_words.induct) (auto simp: double_quotes_append)

lemma join_words_last: "ws \<noteq> [] \<Longrightarrow> join_words (butlast ws @ [last ws @ x]) = join_words ws @ x"
  by (induction ws rule: join_words.induct) (auto simp: join_words_Cons)

lemma join_words_first: "join_words ((x @ w) # ws) = x @ join_words (w # ws)"
  by (cases ws) auto

lemma join_text_parts: "join_words (text_parts pre t) = pre @ render_text t"
proof (cases "(pre, t)" rule: text_parts.cases)
  case (4 pre' w v ws)
  define us where "us = v # ws"
  then have "us \<noteq> []" and t: "t = Quoted (w # us)" and pre: "pre = pre'"
    using 4 by simp_all
  have "join_words (map double_quotes (butlast us) @ [double_quotes (last us) @ [quote_char]]) =
      double_quotes (join_words us) @ [quote_char]"
    using join_words_last [of "map double_quotes us" "[quote_char]"] \<open>us \<noteq> []\<close>
    by (simp add: map_butlast [symmetric] last_map double_quotes_join)
  moreover have "text_parts pre t = (pre @ quote_char # double_quotes w) #
      map double_quotes (butlast us) @ [double_quotes (last us) @ [quote_char]]"
    using t us_def by (simp del: butlast.simps last.simps list.map)
  ultimately show ?thesis
    using t \<open>us \<noteq> []\<close> by (simp add: join_words_Cons double_quotes_append)
qed auto

lemma item_parts_nonempty: "item_parts i \<noteq> []"
  by (cases i) (auto elim: text_parts.elims)

lemma render_item_parts: "render_item i = join_words (item_parts i)"
  by (cases i) (simp_all add: join_text_parts)

lemma render_items_parts: "render_items items = join_words (concat (map item_parts items))"
proof -
  have "map render_item items = map join_words (map item_parts items)"
    by (simp add: render_item_parts)
  moreover have "\<forall>ps \<in> set (map item_parts items). ps \<noteq> []" by (simp add: item_parts_nonempty)
  ultimately show ?thesis
    using join_words_join [of "map item_parts items"] by (simp only: render_items_def)
qed

lemma no_ws_prefix:
  "faithful_column c \<Longrightarrow> no_ws t \<Longrightarrow> no_ws (column_prefix c @ t)"
  by (simp add: faithful_column_def column_prefix_def no_ws_append_ascii ws_len_ascii)

lemma column_prefix_nonempty [simp]: "column_prefix c \<noteq> []"
  by (simp add: column_prefix_def)

lemma no_ws_snoc_quote: "no_ws s \<Longrightarrow> no_ws (s @ [quote_char])"
  by (simp add: no_ws_append_ascii ws_len_ascii)

lemma column_parts_ok:
  assumes "faithful_column c"
  shows "\<forall>p \<in> set (text_parts (column_prefix c) (rc_text c)). no_ws p \<and> p \<noteq> []"
proof (cases "(column_prefix c, rc_text c)" rule: text_parts.cases)
  case (1 pre v)
  then have "no_ws v" using assms by (simp add: faithful_column_def)
  with 1 show ?thesis using no_ws_prefix [OF assms, of v] column_prefix_nonempty [of c] by auto
next
  case (2 pre)
  with assms show ?thesis by (simp add: faithful_column_def)
next
  case (3 pre w)
  with assms have "no_ws (quote_char # double_quotes w @ [quote_char])"
    by (simp add: faithful_column_def ws_len_ascii no_ws_snoc_quote no_ws_double)
  with 3 show ?thesis using no_ws_prefix [OF assms] by simp
next
  case (4 pre w v ws)
  with assms have ws: "no_ws w" "\<forall>u \<in> set (v # ws). no_ws u" "[] \<notin> set (butlast (v # ws))"
    by (auto simp: faithful_column_def list_all_iff)
  then have "no_ws (quote_char # double_quotes w)" by (simp add: ws_len_ascii no_ws_double)
  then have "no_ws (column_prefix c @ quote_char # double_quotes w)" using assms no_ws_prefix by blast
  moreover have "no_ws (double_quotes (last (v # ws)) @ [quote_char])"
    using ws(2) last_in_set [of "v # ws"] by (intro no_ws_snoc_quote no_ws_double) blast
  moreover have "\<forall>u \<in> set (map double_quotes (butlast (v # ws))). no_ws u \<and> u \<noteq> []"
    using ws(2,3) in_set_butlastD [of _ "v # ws"]
    by (auto intro!: no_ws_double simp del: butlast.simps list.set)
  ultimately show ?thesis using 4 by (auto simp del: butlast.simps last.simps)
qed

lemma item_parts_ok: "faithful i \<Longrightarrow> \<forall>p \<in> set (item_parts i). no_ws p \<and> p \<noteq> []"
proof (cases i)
  case OldKey
  have "no_ws ''old-key:''" by code_simp
  with OldKey show ?thesis by simp
next
  case NewTuple
  have "no_ws ''new-tuple:''" by code_simp
  with NewTuple show ?thesis by simp
next
  case (Column c)
  then show "faithful i \<Longrightarrow> ?thesis" using column_parts_ok by simp
qed

lemma split_render_items:
  "list_all faithful items \<Longrightarrow>
     split_whitespace (render_items items) = concat (map item_parts items)"
  using item_parts_ok unfolding render_items_parts list_all_iff
  by (intro split_whitespace_join) fastforce

section \<open>Reading the parts back\<close>

lemma parse_parts_prefix:
  assumes "CHR ''['' \<notin> set (rc_name c)" and "CHR '':'' \<notin> set (rc_type c)"
  shows "parse_parts is_old ((column_prefix c @ t) # ps) =
    (if starts_with t [quote_char]
     then (let (raw, ps') = read_quoted (drop 1 t) ps
           in \<lparr>pc_name = rc_name c, pc_value = undouble_quotes raw, pc_is_old = is_old\<rparr> #
              parse_parts is_old ps')
     else \<lparr>pc_name = rc_name c, pc_value = t, pc_is_old = is_old\<rparr> # parse_parts is_old ps)"
proof -
  have bracket: "find_char (CHR ''['') (column_prefix c @ t) = Some (length (rc_name c))"
    using assms(1) by (simp add: column_prefix_def find_char_append)
  have colon: "find_char (CHR '':'') (''['' @ rc_type c @ '']:'' @ t) = Some (length (rc_type c) + 2)"
    using assms(2) find_char_append [of "CHR '':''" "''['' @ rc_type c @ '']''" t] by simp
  have "CHR ''['' \<in> set (column_prefix c @ t)" by (simp add: column_prefix_def)
  then have "column_prefix c @ t \<noteq> ''old-key:''" "column_prefix c @ t \<noteq> ''new-tuple:''"
    by (auto simp del: set_append)
  then show ?thesis
    using bracket colon by (simp add: column_prefix_def Let_def)
qed

lemma parse_column_parts:
  assumes "faithful_column c"
  shows "parse_parts is_old (text_parts (column_prefix c) (rc_text c) @ rest) =
    \<lparr>pc_name = rc_name c, pc_value = text_value (rc_text c), pc_is_old = is_old\<rparr> #
    parse_parts is_old rest"
proof -
  have name: "CHR ''['' \<notin> set (rc_name c)" "CHR '':'' \<notin> set (rc_type c)" "faithful_text (rc_text c)"
    using assms by (simp_all add: faithful_column_def)
  note prefix = parse_parts_prefix [OF name(1,2)]
  show ?thesis
  proof (cases "(column_prefix c, rc_text c)" rule: text_parts.cases)
    case (1 pre v)
    then have "rc_text c = Plain v" by simp
    with name(3) show ?thesis by (simp add: prefix del: parse_parts.simps)
  next
    case (2 pre)
    with name(3) show ?thesis by simp
  next
    case (3 pre w)
    then have "rc_text c = Quoted [w]" by simp
    with name(3) show ?thesis
      by (simp add: prefix read_quoted_end undouble_double del: parse_parts.simps)
  next
    case (4 pre w v ws)
    obtain us u where vws: "v # ws = us @ [u]" using split_last [of "v # ws"] by blast
    have val: "text_value (rc_text c) = w @ concat (map (Cons space_char) (us @ [u]))"
      using 4 vws join_words_concat [of w "v # ws"] by simp
    have parts: "text_parts (column_prefix c) (rc_text c) =
        (column_prefix c @ quote_char # double_quotes w) # map double_quotes us @
        [double_quotes u @ [quote_char]]"
      using 4 text_parts_many [of "us @ [u]" "column_prefix c" w] by (simp add: vws)
    have "\<not> ends_with (w @ concat (map (Cons space_char) (us @ [u]))) [quote_char]"
      using name(3) 4 val by simp
    from read_quoted_words [OF this, of rest] show ?thesis
      by (simp add: parts prefix val undouble_double del: parse_parts.simps)
  qed
qed

lemma parse_items:
  "list_all faithful items \<Longrightarrow>
     parse_parts is_old (concat (map item_parts items)) = columns_of_items is_old items"
  by (induction is_old items rule: columns_of_items.induct)
    (simp_all add: parse_column_parts)

section \<open>The column data of a line\<close>

text \<open>Parsing inverts printing: the column data of any row whose columns the format can carry
  (quoted values with doubled quotes and spaces, unquoted ones, an \<open>old-key:\<close> tuple before the
  \<open>new-tuple:\<close>) is read back as exactly its columns, in order, each with its name, its value with the
  quotes undone, and the side it belongs to.\<close>

theorem parse_column_values_exact:
  assumes "list_all faithful items"
  shows "parse_column_values (render_items items) = columns_of_items False items"
  using assms by (simp add: parse_column_values_def split_render_items parse_items)

definition sample_items :: "item list" where
  "sample_items =
     [OldKey,
      Column \<lparr>rc_name = ''id'', rc_type = ''integer'', rc_text = Plain ''7''\<rparr>,
      NewTuple,
      Column \<lparr>rc_name = ''id'', rc_type = ''integer'', rc_text = Plain ''7''\<rparr>,
      Column \<lparr>rc_name = ''name'', rc_type = ''text'', rc_text = Quoted [''O'' @ [quote_char] @ ''Neil'', ''Jr'']\<rparr>]"

lemma sample_items_faithful: "list_all faithful sample_items"
  by code_simp

lemma parse_column_values_exact_witness:
  "parse_column_values (render_items sample_items) = columns_of_items False sample_items \<and>
   map pc_name (columns_of_items False sample_items) = [''id'', ''id'', ''name''] \<and>
   map pc_is_old (columns_of_items False sample_items) = [True, False, False]"
  using parse_column_values_exact [OF sample_items_faithful] by (simp add: sample_items_def)

section \<open>A whole line\<close>

lemma render_item_mark:
  assumes "faithful i"
  shows "\<exists>u c t. render_item i = u @ c # t \<and> ascii c \<and> \<not> ascii_ws c \<and> no_ws t"
proof (cases i)
  case OldKey
  then show ?thesis by (intro exI [of _ "''old-key''"] exI [of _ "CHR '':''"] exI [of _ "[]"]) simp
next
  case NewTuple
  then show ?thesis by (intro exI [of _ "''new-tuple''"] exI [of _ "CHR '':''"] exI [of _ "[]"]) simp
next
  case (Column c)
  show ?thesis
  proof (cases "rc_text c")
    case (Plain v)
    with Column have "render_item i = (rc_name c @ ''['' @ rc_type c @ '']'') @ CHR '':'' # v"
      by (simp add: column_prefix_def)
    moreover have "no_ws v" using assms Column Plain by (simp add: faithful_column_def)
    ultimately show ?thesis by (intro exI conjI) auto
  next
    case (Quoted ws)
    with Column have "render_item i =
        (column_prefix c @ quote_char # double_quotes (join_words ws)) @ quote_char # []"
      by simp
    then show ?thesis
      by (rule_tac x = "column_prefix c @ quote_char # double_quotes (join_words ws)" in exI,
          rule_tac x = quote_char in exI, rule_tac x = "[]" in exI) simp
  qed
qed

lemma render_items_mark:
  assumes "list_all faithful items" and "items \<noteq> []"
  shows "\<exists>u c t. render_items items = u @ c # t \<and> ascii c \<and> \<not> ascii_ws c \<and> no_ws t"
proof -
  obtain js i where items: "items = js @ [i]" using split_last [OF assms(2)] by blast
  then obtain u c t where i: "render_item i = u @ c # t" "ascii c" "\<not> ascii_ws c" "no_ws t"
    using render_item_mark [of i] assms(1) by auto
  obtain x where "render_items items = x @ render_item i"
    using items join_words_append [of "[render_item i]" "map render_item js"]
    by (cases "js = []") (auto simp: render_items_def)
  then have "render_items items = (x @ u) @ c # t" using i(1) by simp
  with i show ?thesis by blast
qed

lemma ws_len_join:
  assumes "no_ws p" and "p \<noteq> []"
  shows "ws_len (join_words (p # ps)) = 0"
proof -
  obtain a p' where p: "p = a # p'" using assms(2) by (cases p) auto
  show ?thesis
    using assms(1) ws_len_append_ascii [of space_char a p'] by (cases ps) (simp_all add: p)
qed

lemma render_items_start:
  assumes "list_all faithful items" and "items \<noteq> []"
  shows "ws_len (render_items items) = 0"
proof -
  obtain i js where items: "items = i # js" using assms(2) by (cases items) auto
  obtain p ps where i: "item_parts i = p # ps" using item_parts_nonempty [of i] by (cases "item_parts i") auto
  then have "no_ws p \<and> p \<noteq> []" using item_parts_ok [of i] assms(1) items by auto
  then show ?thesis using ws_len_join [of p] by (simp add: render_items_parts items i)
qed

lemma trim_before_items:
  assumes "list_all faithful items" and "items \<noteq> []" and "ws_len (x @ render_items items) = 0"
  shows "trim (x @ render_items items) = x @ render_items items"
proof -
  obtain u c t where "render_items items = u @ c # t" "ascii c" "\<not> ascii_ws c" "no_ws t"
    using render_items_mark [OF assms(1,2)] by blast
  then show ?thesis using trim_mark [OF assms(3), of "x @ u" c t] by simp
qed

text \<open>A relation name or a command as the parser can read it back.\<close>

definition line_word :: "string \<Rightarrow> bool" where
  "line_word w \<longleftrightarrow> no_ws w \<and> CHR '':'' \<notin> set w"

lemma no_ws_append_dot: "no_ws s \<Longrightarrow> no_ws t \<Longrightarrow> no_ws (s @ CHR ''.'' # t)"
proof -
  have "ascii (CHR ''.'')" and "\<not> ascii_ws (CHR ''.'')" by (simp_all add: ascii_def ascii_ws_def)
  then show "no_ws s \<Longrightarrow> no_ws t \<Longrightarrow> ?thesis" by (simp add: no_ws_append_ascii ws_len_ascii)
qed

lemma ws_len_word_colon: "no_ws w \<Longrightarrow> ws_len (w @ CHR '':'' # t) = 0"
  using ws_len_append_ascii [of "CHR '':''" "hd w" "tl w" t] by (cases w) (auto simp: ws_len_ascii)

lemma parse_rendered_line:
  assumes "line_word command" and "line_word schema" and "line_word table"
    and "CHR ''.'' \<notin> set schema"
    and "list_all faithful items" and "items \<noteq> []"
  shows "parse_change_line (render_line command schema table items) =
    Some (command, schema, table, columns_of_items False items)"
proof -
  let ?full = "schema @ CHR ''.'' # table"
  let ?rest = "command @ '': '' @ render_items items"
  let ?line = "render_line command schema table items"
  note trims = trim_before_items [OF assms(5,6)]
  have line: "?line = (''table '' @ ?full @ '': '' @ command @ '': '') @ render_items items"
    by (simp add: render_line_def)
  have "ws_len ?line = 0"
    by (simp add: render_line_def ws_len_ascii ascii_def ascii_ws_def del: ws_len.simps)
  then have data: "trim ?line = ''table '' @ ?full @ CHR '':'' # space_char # ?rest"
    using trims [of "''table '' @ ?full @ '': '' @ command @ '': ''"] unfolding line by simp
  have full_colon: "CHR '':'' \<notin> set ?full"
    using assms(2,3) by (simp add: line_word_def)
  have full: "trim ?full = ?full"
    using assms(2,3) by (simp add: line_word_def trim_no_ws no_ws_append_dot)
  have rest: "trim (space_char # ?rest) = ?rest"
    using trims [of "command @ '': ''"] ws_len_word_colon [of command] assms(1)
    by (simp add: trim_space line_word_def)
  have command: "trim command = command" "CHR '':'' \<notin> set command"
    using assms(1) by (simp_all add: line_word_def trim_no_ws)
  have cols: "trim (space_char # render_items items) = render_items items"
    using trims [of "[]"] render_items_start [OF assms(5,6)] by (simp add: trim_space)
  have find1: "find_char (CHR '':'') (?full @ CHR '':'' # space_char # ?rest) = Some (length ?full)"
    by (rule find_char_append [OF full_colon])
  have find2: "find_char (CHR '':'') ?rest = Some (length command)"
    using find_char_append [OF command(2)] by simp
  have find3: "find_char (CHR ''.'') ?full = Some (length schema)"
    by (rule find_char_append [OF assms(4)])
  show ?thesis
    unfolding parse_change_line_def data
    using find1 find2 find3 full rest command(1) cols
    by (simp add: Let_def parse_column_values_def split_render_items parse_items assms(5))
qed

section \<open>Quoted identifiers\<close>

lemma no_ws_identifier: "no_ws s \<Longrightarrow> no_ws (quote_identifier keyword s)"
  by (simp add: quote_identifier_def no_ws_double_char no_ws_append_ascii ws_len_ascii ascii_def ascii_ws_def)

lemma set_identifier: "set (quote_identifier keyword s) \<subseteq> insert (CHR 0x22) (set s)"
  by (auto simp: quote_identifier_def set_double_char)

lemma line_word_identifier: "line_word s \<Longrightarrow> line_word (quote_identifier keyword s)"
  using set_identifier [of keyword s] by (auto simp: line_word_def no_ws_identifier)

lemma faithful_quote_item: "faithful i \<Longrightarrow> faithful (quote_item keyword i)"
  using set_identifier [of keyword] by (cases i) (auto simp: faithful_column_def no_ws_identifier)

definition quote_column :: "(string \<Rightarrow> bool) \<Rightarrow> parsed_column \<Rightarrow> parsed_column" where
  "quote_column keyword c = c\<lparr>pc_name := quote_identifier keyword (pc_name c)\<rparr>"

lemma columns_of_quoted:
  "columns_of_items is_old (map (quote_item keyword) items) =
     map (quote_column keyword) (columns_of_items is_old items)"
  by (induction is_old items rule: columns_of_items.induct) (simp_all add: quote_column_def)

lemma parse_printed_change:
  assumes "line_word command" and "line_word schema" and "line_word table"
    and "CHR ''.'' \<notin> set schema" and "list_all faithful items" and "items \<noteq> []"
  shows "parse_change_line (print_change keyword command schema table items) =
    Some (command, quote_identifier keyword schema, quote_identifier keyword table,
      map (quote_column keyword) (columns_of_items False items))"
proof -
  have "CHR ''.'' \<notin> set (quote_identifier keyword schema)"
    using assms(4) set_identifier [of keyword schema] by auto
  moreover have "list_all faithful (map (quote_item keyword) items)"
    using assms(5) faithful_quote_item by (auto simp: list_all_iff)
  ultimately show ?thesis
    using assms(1-3,6) by (simp add: print_change_def parse_rendered_line line_word_identifier columns_of_quoted)
qed

text \<open>The names of a change that are printed as they are.\<close>

definition safe_change :: "(string \<Rightarrow> bool) \<Rightarrow> string \<Rightarrow> string \<Rightarrow> item list \<Rightarrow> bool" where
  "safe_change keyword schema table items \<longleftrightarrow>
     list_all (safe_identifier keyword) (schema # table # map pc_name (columns_of_items False items))"

lemma identifier_chars:
  assumes "safe_identifier keyword s"
  shows "line_word s" and "CHR ''.'' \<notin> set s" and "CHR ''$'' \<notin> set s"
proof -
  let ?chars = "''abcdefghijklmnopqrstuvwxyz0123456789_''"
  have chars: "\<forall>c \<in> set s. c \<in> set ?chars" using assms unfolding safe_identifier_def list_all_iff by blast
  have plain: "list_all (\<lambda>c. ascii c \<and> \<not> ascii_ws c) ?chars" by code_simp
  have "no_ws s" if "\<forall>c \<in> set s. ascii c \<and> \<not> ascii_ws c" for s
    using that by (induction s) (simp_all add: ws_len_ascii del: ws_len.simps)
  then have "no_ws s" using chars plain unfolding list_all_iff by blast
  moreover have "CHR '':'' \<notin> set ?chars" by simp
  with chars have "CHR '':'' \<notin> set s" by blast
  ultimately show "line_word s" by (simp add: line_word_def)
  have "CHR ''.'' \<notin> set ?chars" and "CHR ''$'' \<notin> set ?chars" by simp_all
  with chars show "CHR ''.'' \<notin> set s" and "CHR ''$'' \<notin> set s" by blast+
qed

lemma safe_columns:
  assumes "safe_change keyword schema table items"
  shows "map (quote_column keyword) (columns_of_items False items) = columns_of_items False items"
proof (rule map_idI)
  fix c
  assume "c \<in> set (columns_of_items False items)"
  then have "safe_identifier keyword (pc_name c)"
    using assms by (auto simp: safe_change_def list_all_iff)
  then show "quote_column keyword c = c" by (simp add: quote_column_def quote_identifier_def)
qed

lemma parse_safe_change:
  assumes "line_word command" and "safe_change keyword schema table items"
    and "list_all faithful items" and "items \<noteq> []"
  shows "parse_change_line (print_change keyword command schema table items) =
    Some (command, schema, table, columns_of_items False items)"
proof -
  have safe: "safe_identifier keyword schema" "safe_identifier keyword table"
    using assms(2) by (simp_all add: safe_change_def)
  then show ?thesis
    using parse_printed_change [OF assms(1) identifier_chars(1) identifier_chars(1) identifier_chars(2) assms(3,4),
        OF safe safe(1), of keyword] safe_columns [OF assms(2)]
    by (simp add: quote_identifier_def)
qed



section \<open>Lines the parser does not read back\<close>

lemma parse_parts_skip:
  assumes "\<forall>w \<in> set ws. CHR ''['' \<notin> set w \<and> w \<noteq> ''old-key:'' \<and> w \<noteq> ''new-tuple:''"
  shows "parse_parts is_old (ws @ ps) = parse_parts is_old ps"
proof -
  have "\<forall>w \<in> set ws. find_char (CHR ''['') w = None" using assms by (simp add: find_char_None)
  with assms show ?thesis by (induction ws) (auto simp del: ws_len.simps)
qed

lemma parse_parts_no_colon:
  assumes "CHR ''['' \<notin> set name" and "CHR '':'' \<notin> set t"
  shows "parse_parts is_old ((name @ CHR ''['' # t) # ps) = parse_parts is_old ps"
proof -
  have "CHR ''['' \<in> set (name @ CHR ''['' # t)" by simp
  then have "name @ CHR ''['' # t \<noteq> ''old-key:''" "name @ CHR ''['' # t \<noteq> ''new-tuple:''"
    by (auto simp del: set_append)
  moreover have "find_char (CHR '':'') (CHR ''['' # t) = None" using assms(2) by (simp add: find_char_None)
  ultimately show ?thesis using assms(1) by (simp add: find_char_append)
qed

text \<open>A column whose type name has several words (\<open>character varying\<close>, \<open>timestamp with time
  zone\<close>) is not captured: \<open>test_decoding\<close> prints the type with its spaces, the parser cuts the column
  at the first of them, finds no colon in the first piece and no bracket in the others, and drops
  them all. Whatever faithful columns follow are still read.\<close>

theorem multi_word_type_dropped:
  assumes "no_ws name" and "CHR ''['' \<notin> set name" and "no_ws t" and "CHR '':'' \<notin> set t"
    and "\<forall>w \<in> set ws. no_ws w \<and> w \<noteq> [] \<and> CHR ''['' \<notin> set w \<and> w \<noteq> ''old-key:'' \<and> w \<noteq> ''new-tuple:''"
    and "list_all faithful items"
  shows "parse_column_values (join_words ((name @ CHR ''['' # t) # ws @ map render_item items)) =
    columns_of_items False items"
proof -
  let ?first = "name @ CHR ''['' # t"
  let ?parts = "?first # ws @ concat (map item_parts items)"
  have pieces: "map join_words ([?first] # map (\<lambda>w. [w]) ws @ map item_parts items) =
      ?first # ws @ map render_item items"
    by (induction ws) (simp_all add: render_item_parts)
  have "concat (map (\<lambda>w. [w]) ws) = ws" by (induction ws) auto
  moreover have "\<forall>ps \<in> set ([?first] # map (\<lambda>w. [w]) ws @ map item_parts items). ps \<noteq> []"
    using item_parts_nonempty by (auto dest: sym)
  ultimately have "join_words (?first # ws @ map render_item items) = join_words ?parts"
    using join_words_join [of "[?first] # map (\<lambda>w. [w]) ws @ map item_parts items"]
    by (simp only: pieces) simp
  moreover have "no_ws ?first" using assms(1,3) by (simp add: no_ws_append_ascii ws_len_ascii)
  then have "split_whitespace (join_words ?parts) = ?parts"
    using assms(5,6) item_parts_ok by (intro split_whitespace_join) (fastforce simp: list_all_iff)
  ultimately show ?thesis
    using assms(5) parse_parts_no_colon [OF assms(2,4)] parse_parts_skip [of ws]
    by (simp add: parse_column_values_def parse_items [OF assms(6)])
qed

lemma multi_word_type_dropped_witness:
  "parse_column_values
     (join_words ((''email'' @ ''[character'') #
       [''varying]:'' @ [quote_char] @ ''a@b.c'' @ [quote_char]] @ map render_item sample_items)) =
   columns_of_items False sample_items"
proof -
  have email: "no_ws ''email''" by code_simp
  have t: "no_ws ''character''" by code_simp
  have v: "no_ws (''varying]:'' @ [quote_char] @ ''a@b.c'' @ [quote_char])" by code_simp
  show ?thesis
    using multi_word_type_dropped [of "''email''" "''character''"
        "[''varying]:'' @ [quote_char] @ ''a@b.c'' @ [quote_char]]" sample_items]
      email t v sample_items_faithful
    by simp
qed

lemma read_quoted_last: "snd (read_quoted v []) = []"
  by simp

text \<open>A quoted value that ends with a quote swallows what follows it: its text ends with a doubled
  quote and the closing one, the parser does not see an end there and goes on collecting. The next
  column is lost, the value read is not the value printed.\<close>

theorem value_ending_in_quote_swallows_next:
  assumes "faithful_column (c\<lparr>rc_text := Plain []\<rparr>)" and "rc_text c = Quoted [s @ [quote_char]]"
    and "no_ws s" and "faithful_column d" and "rc_text d = Plain v"
  shows "map pc_name (parse_column_values (render_items [Column c, Column d])) = [rc_name c]"
proof -
  let ?p = "column_prefix c @ quote_char # double_quotes (s @ [quote_char]) @ [quote_char]"
  let ?q = "column_prefix d @ v"
  have c: "CHR ''['' \<notin> set (rc_name c)" "CHR '':'' \<notin> set (rc_type c)"
    using assms(1) by (simp_all add: faithful_column_def)
  have "no_ws (quote_char # double_quotes (s @ [quote_char]) @ [quote_char])"
    using assms(3) by (simp add: ws_len_ascii no_ws_double no_ws_snoc_quote)
  then have "no_ws ?p"
    using no_ws_prefix [OF assms(1), of "quote_char # double_quotes (s @ [quote_char]) @ [quote_char]"]
    by (simp add: column_prefix_def)
  moreover have "no_ws ?q"
    using no_ws_prefix [OF assms(4), of v] assms(4,5) by (simp add: faithful_column_def)
  ultimately have "split_whitespace (join_words [?p, ?q]) = [?p, ?q]"
    by (intro split_whitespace_join) auto
  then have split: "split_whitespace (render_items [Column c, Column d]) = [?p, ?q]"
    by (simp add: render_items_def assms(2,5))
  have open_end: "\<not> closes (double_quotes (s @ [quote_char]) @ [quote_char])"
    by (simp only: closes_double_end) simp
  have "snd (read_quoted (double_quotes (s @ [quote_char]) @ [quote_char]) [?q]) = []"
    using open_end by (simp add: read_quoted_last)
  then show ?thesis
    unfolding parse_column_values_def split
    by (simp add: parse_parts_prefix [OF c] Let_def case_prod_beta del: parse_parts.simps(2) read_quoted.simps)
qed

lemma value_ending_in_quote_swallows_next_witness:
  "map pc_name (parse_column_values (render_items
     [Column \<lparr>rc_name = ''note'', rc_type = ''text'', rc_text = Quoted [''boss'' @ [quote_char]]\<rparr>,
      Column \<lparr>rc_name = ''salary'', rc_type = ''integer'', rc_text = Plain ''9''\<rparr>])) = [''note'']"
proof -
  have boss: "no_ws ''boss''" by code_simp
  have c: "faithful_column \<lparr>rc_name = ''note'', rc_type = ''text'', rc_text = Plain []\<rparr>" by code_simp
  have d: "faithful_column \<lparr>rc_name = ''salary'', rc_type = ''integer'', rc_text = Plain ''9''\<rparr>" by code_simp
  show ?thesis
    using value_ending_in_quote_swallows_next [of
        "\<lparr>rc_name = ''note'', rc_type = ''text'', rc_text = Quoted [''boss'' @ [quote_char]]\<rparr>" "''boss''"
        "\<lparr>rc_name = ''salary'', rc_type = ''integer'', rc_text = Plain ''9''\<rparr>" "''9''"] boss c d
    by simp
qed

end
