(* ===== verification/WalEvents.thy ===== *)
theory WalEvents
  imports WalFormat
begin

text \<open>
  What WAL capture makes of a change: which lines give an event, what the event says, which values
  of the two documents are masked and which are not, and what the polling worker hands on over any
  number of polls and sessions. The definitions are those of \<open>WalCapture\<close>; this theory adds the
  vocabulary of the statements (\<open>column_json\<close>, \<open>recorded\<close>, \<open>masked_field\<close>, \<open>session_rows\<close>).
\<close>

section \<open>Documents\<close>

definition column_json :: "(string \<Rightarrow> json option) \<Rightarrow> parsed_column \<Rightarrow> json" where
  "column_json from_str col =
     (if pc_value col = ''null'' then JNull
      else case from_str (pc_value col) of
             Some v \<Rightarrow> (if pc_name col = ''data'' \<or> is_object v \<or> is_array v then v
                       else JString (pc_value col))
           | None \<Rightarrow> JString (pc_value col))"

lemma insert_column_value_eq:
  "insert_column_value from_str col m = obj_insert (pc_name col) (column_json from_str col) m"
  by (simp add: insert_column_value_def column_json_def split: option.split)

lemma columns_to_jsonb_eq:
  "columns_to_jsonb from_str cols = jobj (map (\<lambda>c. (pc_name c, column_json from_str c)) cols)"
  by (simp add: columns_to_jsonb_def jobj_def obj_of_def insert_column_value_eq [abs_def] fold_map comp_def)

lemma all_fields_columns:
  "set (all_fields (columns_to_jsonb from_str cols)) = pc_name ` set cols"
  by (simp add: columns_to_jsonb_eq jobj_def set_keys_obj_of image_image)

lemma jlookup_columns:
  assumes "distinct (map pc_name cols)" and "c \<in> set cols"
  shows "jlookup (columns_to_jsonb from_str cols) (pc_name c) = Some (column_json from_str c)"
  using assms by (auto simp: columns_to_jsonb_eq jlookup_jobj rev_map [symmetric] comp_def intro!: map_of_is_SomeI)

lemma jlookup_columns_None:
  "jlookup (columns_to_jsonb from_str cols) k = None \<longleftrightarrow> k \<notin> pc_name ` set cols"
  by (auto simp: columns_to_jsonb_eq jlookup_jobj map_of_eq_None_iff image_image)

lemma diff_fields_columns:
  "k \<in> set (diff_fields (columns_to_jsonb from_str cols) (columns_to_jsonb from_str cols')) \<longleftrightarrow>
    (case (jlookup (columns_to_jsonb from_str cols) k, jlookup (columns_to_jsonb from_str cols') k) of
       (None, None) \<Rightarrow> False
     | (Some a, Some b) \<Rightarrow> \<not> json_eq a b
     | _ \<Rightarrow> True)"
  by (simp only: columns_to_jsonb_eq jobj_def diff_fields_set [OF wf_obj_of wf_obj_of] jlookup.simps)

text \<open>The commands that are recorded.\<close>

definition recorded :: "string \<Rightarrow> bool" where
  "recorded command \<longleftrightarrow> command \<in> {''INSERT'', ''UPDATE'', ''DELETE''}"

lemma change_documents_None: "change_documents from_str command cols = None \<longleftrightarrow> \<not> recorded command"
  by (auto simp: change_documents_def recorded_def Let_def split: prod.splits)

lemma changed_fields_subset:
  assumes "change_documents from_str command cols = Some (old, new)"
  shows "set (changed_fields_of old new) \<subseteq> pc_name ` set cols"
proof
  fix k
  assume k: "k \<in> set (changed_fields_of old new)"
  show "k \<in> pc_name ` set cols"
  proof (cases "command = ''UPDATE'' \<and> filter pc_is_old cols \<noteq> []")
    case True
    with assms have "old = Some (columns_to_jsonb from_str (filter pc_is_old cols))"
      "new = Some (columns_to_jsonb from_str (filter (\<lambda>c. \<not> pc_is_old c) cols))"
      by (simp_all add: change_documents_def split_old_new_columns_def Let_def)
    with k have "jlookup (columns_to_jsonb from_str (filter pc_is_old cols)) k \<noteq> None \<or>
        jlookup (columns_to_jsonb from_str (filter (\<lambda>c. \<not> pc_is_old c) cols)) k \<noteq> None"
      by (auto simp: diff_fields_columns split: option.splits)
    then show ?thesis by (auto simp: jlookup_columns_None)
  next
    case False
    with assms k show ?thesis
      by (auto simp: change_documents_def split_old_new_columns_def Let_def all_fields_columns
          split: if_splits)
  qed
qed

section \<open>The event\<close>

lemma event_fields:
  fixes old new now command schema table chg matches xid lsn
  defines "e \<equiv> build_data_change_event now command schema table old new chg matches xid lsn"
  shows "jget e ''event_type'' = JString ''DATA_CHANGE''"
    and "jget e ''event_time'' = JString now"
    and "jget e ''command_tag'' = JString command"
    and "jget e ''object_name'' = JString table"
    and "jget e ''schema_name'' = JString schema"
    and "jget (jget e ''detail'') ''source'' = JString ''wal''"
    and "jget (jget e ''detail'') ''xid'' = JString xid"
    and "jget (jget e ''detail'') ''lsn'' = JString lsn"
    and "jget (jget e ''detail'') ''old_data'' = option_json old"
    and "jget (jget e ''detail'') ''new_data'' = option_json new"
    and "jget (jget e ''detail'') ''changed_fields'' = JArray (map JString chg)"
    and "jget (jget e ''detail'') ''sensitive_fields_touched'' =
      JArray (map JString (map sm_json_path matches))"
  by (simp_all add: e_def build_data_change_event_def json_simps)

lemma wal_event_source: "is_object (build_data_change_event now c s t old new fs ms xid lsn)"
  by (simp add: build_data_change_event_def jobj_def)

text \<open>A field of a document after redaction.\<close>

definition masked_field ::
  "field_registry \<Rightarrow> string \<Rightarrow> string \<Rightarrow> string list \<Rightarrow> json option \<Rightarrow> string \<Rightarrow> json" where
  "masked_field reg schema table chg doc k =
     (case doc of
        None \<Rightarrow> JNull
      | Some d \<Rightarrow>
          (if k \<in> set chg \<and> sensitivity reg schema table k = Some True \<and> jlookup d k \<noteq> None
           then redacted else jget d k))"

lemma redact_matches_field:
  assumes "\<forall>f \<in> set chg. \<not> starts_with f ''$.''"
  shows "jget (option_json (redact_matches (detect reg schema table chg) doc)) k =
    masked_field reg schema table chg doc k"
proof -
  let ?ms = "detect reg schema table chg"
  have key: "match_key m = sm_json_path m" if "m \<in> set ?ms" for m
    using that assms trim_dollar_dot_plain unfolding detect_set match_key_def by blast
  have hit: "(\<exists>m \<in> set ?ms. sm_redact m \<and> match_key m = k) \<longleftrightarrow>
      k \<in> set chg \<and> sensitivity reg schema table k = Some True"
  proof
    assume "\<exists>m \<in> set ?ms. sm_redact m \<and> match_key m = k"
    then show "k \<in> set chg \<and> sensitivity reg schema table k = Some True"
      using key by (auto simp: detect_set)
  next
    assume r: "k \<in> set chg \<and> sensitivity reg schema table k = Some True"
    then have "\<lparr>sm_json_path = k, sm_redact = True\<rparr> \<in> set ?ms" by (simp add: detect_set)
    with key show "\<exists>m \<in> set ?ms. sm_redact m \<and> match_key m = k" by force
  qed
  show ?thesis
  proof (cases doc)
    case None
    then show ?thesis by (simp add: masked_field_def redact_matches_def option_json_def jget_def)
  next
    case (Some d)
    have "jget (option_json (redact_matches ?ms doc)) k = jget (redact d ?ms) k"
      using Some by (cases d) (simp_all add: redact_matches_def option_json_def)
    with Some show ?thesis by (simp add: masked_field_def jget_redact hit)
  qed
qed

section \<open>Which lines give an event\<close>

lemma trim_head: "ws_len (c # s) = 0 \<Longrightarrow> \<exists>t. trim (c # s) = c # t"
  by (simp add: trim_def trim_start_id all_ws_def del: trim_start.simps)

lemma ws_len_letter: "ws_len (CHR ''B'' # s) = 0" "ws_len (CHR ''C'' # s) = 0"
  by (simp_all add: ws_len_ascii ascii_def ascii_ws_def del: ws_len.simps)

lemma change_line_not_transaction:
  assumes "parse_change_line data = Some r"
  shows "\<not> starts_with data ''BEGIN''" and "\<not> starts_with data ''COMMIT''"
proof -
  have table: "starts_with (trim data) ''table ''"
    using assms by (auto simp: parse_change_line_def Let_def split: if_splits)
  have other: "\<not> starts_with data (c # w)" if "\<And>s. ws_len (c # s) = 0" and "c \<noteq> CHR ''t''" for c w
  proof
    assume "starts_with data (c # w)"
    then obtain s where "data = c # s" by auto
    with trim_head [OF that(1)] obtain t where "trim data = c # t" by blast
    with table that(2) show False by simp
  qed
  show "\<not> starts_with data ''BEGIN''" by (rule other) (simp_all only: ws_len_letter, simp)
  show "\<not> starts_with data ''COMMIT''" by (rule other) (simp_all only: ws_len_letter, simp)
qed

lemma parse_test_decoding_Some:
  assumes "parse_change_line data = Some (command, schema, table, cols)"
    and "change_documents from_str command cols = Some (old, new)"
  shows "parse_test_decoding from_str now reg data xid lsn =
    (let chg = changed_fields_of old new; matches = detect reg schema table chg
     in Some [build_data_change_event now command schema table (redact_matches matches old)
                (redact_matches matches new) chg matches xid lsn])"
  using assms change_line_not_transaction [OF assms(1)] by (simp add: parse_test_decoding_def Let_def)

text \<open>Exactly the change lines of an INSERT, UPDATE or DELETE give an event: one, a
  \<open>DATA_CHANGE\<close> that carries the command, the schema, the table, the transaction and the position.
  Every other line (transaction marks, TRUNCATE, text that is not a change) gives none.\<close>

theorem captured_lines:
  "case parse_change_line data of
     Some (command, schema, table, cols) \<Rightarrow>
       (if recorded command
        then (case parse_test_decoding from_str now reg data xid lsn of
                Some [e] \<Rightarrow>
                  jget e ''event_type'' = JString ''DATA_CHANGE'' \<and> jget e ''event_time'' = JString now \<and>
                  jget e ''command_tag'' = JString command \<and> jget e ''schema_name'' = JString schema \<and>
                  jget e ''object_name'' = JString table \<and>
                  jget (jget e ''detail'') ''xid'' = JString xid \<and>
                  jget (jget e ''detail'') ''lsn'' = JString lsn
              | _ \<Rightarrow> False)
        else parse_test_decoding from_str now reg data xid lsn = None)
   | None \<Rightarrow> parse_test_decoding from_str now reg data xid lsn = None"
proof (cases "parse_change_line data")
  case None
  then show ?thesis by (simp add: parse_test_decoding_def)
next
  case (Some r)
  obtain command schema table cols where r: "r = (command, schema, table, cols)" by (cases r) auto
  show ?thesis
  proof (cases "change_documents from_str command cols")
    case None
    then show ?thesis
      using Some r change_documents_None [of from_str command cols] by (simp add: parse_test_decoding_def)
  next
    case (Some d)
    obtain old new where d: "d = (old, new)" by (cases d)
    note documents = Some [unfolded d]
    have "recorded command" using documents change_documents_None [of from_str command cols] by simp
    then show ?thesis
      using parse_test_decoding_Some [OF \<open>parse_change_line data = Some r\<close> [unfolded r] documents]
        \<open>parse_change_line data = Some r\<close> r by (simp add: Let_def event_fields)
  qed
qed

section \<open>Which values are masked\<close>

text \<open>A field of the \<open>old_data\<close> or \<open>new_data\<close> document of an event.\<close>

definition document_field :: "json \<Rightarrow> string \<Rightarrow> string \<Rightarrow> json" where
  "document_field e side k = jget (jget (jget e ''detail'') side) k"

definition plain_names :: "parsed_column list \<Rightarrow> bool" where
  "plain_names cols \<longleftrightarrow> list_all (\<lambda>c. \<not> starts_with (pc_name c) ''$.'') cols"

lemma plain_changed_fields:
  assumes "change_documents from_str command cols = Some (old, new)" and "plain_names cols"
  shows "\<forall>f \<in> set (changed_fields_of old new). \<not> starts_with f ''$.''"
proof
  fix f
  assume "f \<in> set (changed_fields_of old new)"
  then obtain c where "c \<in> set cols" "f = pc_name c" using changed_fields_subset [OF assms(1)] by blast
  then show "\<not> starts_with f ''$.''" using assms(2) unfolding plain_names_def list_all_iff by blast
qed

lemma captured_fields:
  assumes "parse_change_line data = Some (command, schema, table, cols)"
    and "change_documents from_str command cols = Some (old, new)" and "plain_names cols"
  shows "\<exists>e. parse_test_decoding from_str now reg data xid lsn = Some [e] \<and>
    (\<forall>k. document_field e ''old_data'' k = masked_field reg schema table (changed_fields_of old new) old k) \<and>
    (\<forall>k. document_field e ''new_data'' k = masked_field reg schema table (changed_fields_of old new) new k)"
  using redact_matches_field [OF plain_changed_fields [OF assms(2,3)]]
  by (simp add: parse_test_decoding_Some [OF assms(1,2)] Let_def document_field_def event_fields)

lemma captured_insert:
  assumes "parse_change_line data = Some (''INSERT'', schema, table, cols)" and "plain_names cols"
    and "parse_test_decoding from_str now reg data xid lsn = Some [e]"
  shows "document_field e ''new_data'' k =
    masked_field reg schema table (all_fields (columns_to_jsonb from_str cols))
      (Some (columns_to_jsonb from_str cols)) k"
proof -
  have "change_documents from_str ''INSERT'' cols = Some (None, Some (columns_to_jsonb from_str cols))"
    by (simp add: change_documents_def)
  from captured_fields [OF assms(1) this assms(2), of now reg xid lsn] assms(3) show ?thesis by auto
qed

text \<open>Lines for the examples: an INSERT, and an UPDATE with the whole old row, in which \<open>pan\<close> stays
  the same and \<open>cvv\<close> changes.\<close>

definition sample_insert :: string where
  "sample_insert = ''table public.cards: INSERT: pan[text]:4111 data[jsonb]:{}''"

definition sample_insert_columns :: "parsed_column list" where
  "sample_insert_columns =
     [\<lparr>pc_name = ''pan'', pc_value = ''4111'', pc_is_old = False\<rparr>,
      \<lparr>pc_name = ''data'', pc_value = ''{}'', pc_is_old = False\<rparr>]"

definition sample_update :: string where
  "sample_update =
     ''table public.cards: UPDATE: old-key: pan[text]:4111 cvv[text]:1 new-tuple: pan[text]:4111 cvv[text]:2''"

definition sample_update_columns :: "parsed_column list" where
  "sample_update_columns =
     [\<lparr>pc_name = ''pan'', pc_value = ''4111'', pc_is_old = True\<rparr>,
      \<lparr>pc_name = ''cvv'', pc_value = ''1'', pc_is_old = True\<rparr>,
      \<lparr>pc_name = ''pan'', pc_value = ''4111'', pc_is_old = False\<rparr>,
      \<lparr>pc_name = ''cvv'', pc_value = ''2'', pc_is_old = False\<rparr>]"

lemma sample_insert_parsed:
  "parse_change_line sample_insert = Some (''INSERT'', ''public'', ''cards'', sample_insert_columns)"
  by code_simp

lemma sample_update_parsed:
  "parse_change_line sample_update = Some (''UPDATE'', ''public'', ''cards'', sample_update_columns)"
  by code_simp

lemma sample_insert_plain: "plain_names sample_insert_columns"
  by code_simp

lemma sample_update_plain: "plain_names sample_update_columns"
  by code_simp

definition sample_row_items :: "item list" where
  "sample_row_items =
     [Column \<lparr>rc_name = ''pan'', rc_type = ''text'', rc_text = Quoted [''4111'', ''1111'']\<rparr>,
      Column \<lparr>rc_name = ''name'', rc_type = ''text'', rc_text = Quoted [''O'' @ [quote_char] @ ''Neil'']\<rparr>]"

text \<open>C17: Redaction of an event is exact on both of its documents: a top-level field is replaced by
  the marker when it is present, among the changed fields, and sensitive with the redact flag; every
  other field is what the line said.\<close>

theorem captured_redaction_exact:
  assumes "parse_change_line data = Some (command, schema, table, cols)"
    and "change_documents from_str command cols = Some (old, new)" and "plain_names cols"
    and "parse_test_decoding from_str now reg data xid lsn = Some [e]"
  shows "document_field e ''old_data'' k = masked_field reg schema table (changed_fields_of old new) old k \<and>
    document_field e ''new_data'' k = masked_field reg schema table (changed_fields_of old new) new k"
  using captured_fields [OF assms(1,2,3), of now reg xid lsn] assms(4) by auto

theorem captured_redaction_exact_witness:
  "\<exists>e. parse_test_decoding (\<lambda>_. None) ''t'' sample_registry sample_update ''9'' ''0/1'' = Some [e] \<and>
    document_field e ''new_data'' ''cvv'' = redacted \<and> document_field e ''new_data'' ''pan'' = JString ''4111''"
proof -
  let ?old = "columns_to_jsonb (\<lambda>_. None) (filter pc_is_old sample_update_columns)"
  let ?new = "columns_to_jsonb (\<lambda>_. None) (filter (\<lambda>c. \<not> pc_is_old c) sample_update_columns)"
  have docs: "change_documents (\<lambda>_. None) ''UPDATE'' sample_update_columns = Some (Some ?old, Some ?new)"
    by code_simp
  obtain e where e: "parse_test_decoding (\<lambda>_. None) ''t'' sample_registry sample_update ''9'' ''0/1'' = Some [e]"
    using captured_fields [OF sample_update_parsed docs sample_update_plain] by blast
  have "masked_field sample_registry ''public'' ''cards'' (changed_fields_of (Some ?old) (Some ?new)) (Some ?new) ''cvv'' = redacted"
    "masked_field sample_registry ''public'' ''cards'' (changed_fields_of (Some ?old) (Some ?new)) (Some ?new) ''pan'' = JString ''4111''"
    by code_simp+
  then show ?thesis
    using e captured_redaction_exact [OF sample_update_parsed docs sample_update_plain e] by auto
qed

text \<open>Names that are printed as they are do not start with \<open>$.\<close>.\<close>

lemma safe_plain_names: "safe_change keyword schema table items \<Longrightarrow> plain_names (columns_of_items False items)"
  using identifier_chars(3) by (fastforce simp: safe_change_def plain_names_def list_all_iff)

lemma all_new_columns: "OldKey \<notin> set items \<Longrightarrow> filter pc_is_old (columns_of_items False items) = []"
  by (induction False items rule: columns_of_items.induct) auto

text \<open>C18: When the whole row is in the line (an INSERT, a DELETE, or an UPDATE without an old tuple), no
  column that is configured to be redacted leaves in clear: its value is replaced in every document of
  the event. This holds for the rows the parser reads back: type names without white space, values
  whose words are separated by single spaces and which do not end with a quote, and schema, table and
  column names that are printed without double quotes.\<close>

theorem sensitive_column_masked:
  assumes "recorded command" and "safe_change keyword schema table items"
    and "list_all faithful items" and "items \<noteq> []"
    and "command = ''UPDATE'' \<longrightarrow> OldKey \<notin> set items"
    and "c \<in> set (columns_of_items False items)" and "sensitivity reg schema table (pc_name c) = Some True"
  shows "\<exists>e. parse_test_decoding from_str now reg (print_change keyword command schema table items) xid lsn =
      Some [e] \<and>
    document_field e ''old_data'' (pc_name c) \<in> {JNull, redacted} \<and>
    document_field e ''new_data'' (pc_name c) \<in> {JNull, redacted} \<and>
    document_field e (if command = ''DELETE'' then ''old_data'' else ''new_data'') (pc_name c) = redacted"
proof -
  let ?cols = "columns_of_items False items"
  let ?doc = "columns_to_jsonb from_str ?cols"
  have "line_word w" if "w \<in> {''INSERT'', ''UPDATE'', ''DELETE''}" for w
    using that by (elim insertE emptyE; hypsubst) code_simp+
  then have "line_word command" using assms(1) by (simp only: recorded_def)
  note parsed = parse_safe_change [OF this assms(2-4)]
  have all: "filter (\<lambda>c. \<not> pc_is_old c) ?cols = ?cols" if "filter pc_is_old ?cols = []"
    using that by (auto simp: filter_empty_conv filter_id_conv)
  obtain old new where docs: "change_documents from_str command ?cols = Some (old, new)"
    and fs: "changed_fields_of old new = all_fields ?doc"
    and sides: "(old, new) = (if command = ''DELETE'' then (Some ?doc, None) else (None, Some ?doc))"
    using assms(1,5) all all_new_columns [of items]
    by (auto simp: recorded_def change_documents_def split_old_new_columns_def)
  have "masked_field reg schema table (all_fields ?doc) (Some ?doc) (pc_name c) = redacted"
    using assms(6,7) jlookup_columns_None [of from_str ?cols "pc_name c"]
    by (simp add: masked_field_def all_fields_columns)
  moreover have "masked_field reg schema table (all_fields ?doc) None (pc_name c) = JNull"
    by (simp add: masked_field_def)
  ultimately show ?thesis
    using captured_fields [OF parsed docs safe_plain_names [OF assms(2)], of now reg xid lsn] sides fs
    by (auto split: if_splits)
qed

theorem sensitive_column_masked_witness:
  "\<exists>e. parse_test_decoding (\<lambda>_. None) ''t'' sample_registry
      (print_change (\<lambda>_. False) ''INSERT'' ''public'' ''cards'' sample_row_items) ''9'' ''0/1'' = Some [e] \<and>
    document_field e ''new_data'' ''pan'' = redacted"
proof -
  have facts: "recorded ''INSERT''" "safe_change (\<lambda>_. False) ''public'' ''cards'' sample_row_items"
    "list_all faithful sample_row_items" "sample_row_items \<noteq> []"
    "sensitivity sample_registry ''public'' ''cards'' ''pan'' = Some True"
    by code_simp+
  have "\<lparr>pc_name = ''pan'', pc_value = ''4111 1111'', pc_is_old = False\<rparr> \<in> set (columns_of_items False sample_row_items)"
    by (simp add: sample_row_items_def)
  from sensitive_column_masked [OF facts(1-4) _ this, of sample_registry "\<lambda>_. None" "''t''" "''9''" "''0/1''"] facts(5)
  show ?thesis by auto
qed

text \<open>Outside of these rows it does not hold: after a value that ends with a quote the next column is not
  found, and its value leaves in clear inside the value that swallowed it.\<close>

theorem swallowed_column_leaks:
  "\<exists>e. parse_test_decoding (\<lambda>_. None) ''t'' (new_registry ''ssn'')
      (print_change (\<lambda>_. False) ''INSERT'' ''public'' ''people''
        [Column \<lparr>rc_name = ''note'', rc_type = ''text'', rc_text = Quoted [''boss'' @ [quote_char]]\<rparr>,
         Column \<lparr>rc_name = ''ssn'', rc_type = ''text'', rc_text = Quoted [''123'']\<rparr>]) ''9'' ''0/1'' = Some [e] \<and>
    document_field e ''new_data'' ''note'' =
      JString (''boss'' @ [quote_char, quote_char] @ '' ssn[text]:'' @ [quote_char] @ ''123'')"
proof -
  let ?line = "print_change (\<lambda>_. False) ''INSERT'' ''public'' ''people''
        [Column \<lparr>rc_name = ''note'', rc_type = ''text'', rc_text = Quoted [''boss'' @ [quote_char]]\<rparr>,
         Column \<lparr>rc_name = ''ssn'', rc_type = ''text'', rc_text = Quoted [''123'']\<rparr>]"
  let ?cols = "[\<lparr>pc_name = ''note'',
      pc_value = ''boss'' @ [quote_char, quote_char] @ '' ssn[text]:'' @ [quote_char] @ ''123'', pc_is_old = False\<rparr>]"
  have parsed: "parse_change_line ?line = Some (''INSERT'', ''public'', ''people'', ?cols)" by code_simp
  have docs: "change_documents (\<lambda>_. None) ''INSERT'' ?cols = Some (None, Some (columns_to_jsonb (\<lambda>_. None) ?cols))"
    by (simp add: change_documents_def)
  have plain: "plain_names ?cols" by (simp add: plain_names_def)
  let ?doc = "columns_to_jsonb (\<lambda>_. None) ?cols"
  have shown: "masked_field (new_registry ''ssn'') ''public'' ''people'' (changed_fields_of None (Some ?doc))
      (Some ?doc) ''note'' =
    JString (''boss'' @ [quote_char, quote_char] @ '' ssn[text]:'' @ [quote_char] @ ''123'')"
    by code_simp
  obtain e where "parse_test_decoding (\<lambda>_. None) ''t'' (new_registry ''ssn'') ?line ''9'' ''0/1'' = Some [e]"
    and "document_field e ''new_data'' ''note'' = masked_field (new_registry ''ssn'') ''public'' ''people''
      (changed_fields_of None (Some ?doc)) (Some ?doc) ''note''"
    using captured_fields [OF parsed docs plain, of "''t''" "new_registry ''ssn''" "''9''" "''0/1''"] by blast
  then show ?thesis unfolding shown by blast
qed

text \<open>C40: In an UPDATE that carries the old row (\<open>REPLICA IDENTITY FULL\<close>), a field whose value did
  not change is not among the changed fields, and both documents show it in clear, however it is
  configured.\<close>

theorem unchanged_sensitive_field_in_clear:
  assumes "parse_change_line data = Some (''UPDATE'', schema, table, cols)" and "plain_names cols"
    and "filter pc_is_old cols \<noteq> []"
    and "jlookup (columns_to_jsonb from_str (filter pc_is_old cols)) k = Some a"
    and "jlookup (columns_to_jsonb from_str (filter (\<lambda>c. \<not> pc_is_old c) cols)) k = Some b"
    and "json_eq a b"
  shows "\<exists>e. parse_test_decoding from_str now reg data xid lsn = Some [e] \<and>
    document_field e ''old_data'' k = a \<and> document_field e ''new_data'' k = b"
proof -
  let ?old = "columns_to_jsonb from_str (filter pc_is_old cols)"
  let ?new = "columns_to_jsonb from_str (filter (\<lambda>c. \<not> pc_is_old c) cols)"
  have docs: "change_documents from_str ''UPDATE'' cols = Some (Some ?old, Some ?new)"
    using assms(3) by (simp add: change_documents_def split_old_new_columns_def)
  have "k \<notin> set (changed_fields_of (Some ?old) (Some ?new))"
    using assms(4-6) by (simp add: diff_fields_columns)
  then show ?thesis
    using captured_fields [OF assms(1) docs assms(2), of now reg xid lsn] assms(4,5)
    by (auto simp: masked_field_def jget_def)
qed

theorem unchanged_sensitive_field_in_clear_witness:
  "sensitivity sample_registry ''public'' ''cards'' ''pan'' = Some True \<and>
   (\<exists>e. parse_test_decoding (\<lambda>_. None) ''t'' sample_registry sample_update ''9'' ''0/1'' = Some [e] \<and>
    document_field e ''old_data'' ''pan'' = JString ''4111'' \<and>
    document_field e ''new_data'' ''pan'' = JString ''4111'')"
proof -
  have facts: "sensitivity sample_registry ''public'' ''cards'' ''pan'' = Some True"
    "filter pc_is_old sample_update_columns \<noteq> []"
    "jlookup (columns_to_jsonb (\<lambda>_. None) (filter pc_is_old sample_update_columns)) ''pan'' = Some (JString ''4111'')"
    "jlookup (columns_to_jsonb (\<lambda>_. None) (filter (\<lambda>c. \<not> pc_is_old c) sample_update_columns)) ''pan'' =
      Some (JString ''4111'')"
    by code_simp+
  show ?thesis
    using facts(1) unchanged_sensitive_field_in_clear
      [OF sample_update_parsed sample_update_plain facts(2-4), of "''t''" sample_registry "''9''" "''0/1''"]
    by simp
qed

text \<open>No configuration of paths inside a JSONB column has an effect: where no global name and no
  row of the table normalises to \<open>data\<close> itself, the \<open>data\<close> document of an event is the one of the
  line, sensitive fields included.\<close>

theorem jsonb_paths_not_redacted:
  assumes "parse_change_line data = Some (''INSERT'', schema, table, cols)" and "plain_names cols"
    and "''data'' \<notin> set (global_fields reg)"
    and "\<forall>d \<in> set (table_fields reg schema table). trim_dollar_dot (df_json_path d) \<noteq> ''data''"
  shows "\<exists>e. parse_test_decoding from_str now reg data xid lsn = Some [e] \<and>
    document_field e ''new_data'' ''data'' = jget (columns_to_jsonb from_str cols) ''data''"
proof -
  let ?new = "columns_to_jsonb from_str cols"
  have docs: "change_documents from_str ''INSERT'' cols = Some (None, Some ?new)"
    by (simp add: change_documents_def)
  have "trim_dollar_dot ''data'' = ''data''" by (simp add: trim_dollar_dot_plain)
  then have "sensitivity reg schema table ''data'' = None"
    using assms(3,4) by (auto simp: sensitivity_def global_hit_def db_hit_def list_ex_iff find_None_iff Let_def)
  then show ?thesis
    using captured_fields [OF assms(1) docs assms(2), of now reg xid lsn]
    by (auto simp: masked_field_def)
qed

theorem jsonb_paths_not_redacted_witness:
  "\<exists>e. parse_test_decoding (\<lambda>_. Some (jobj [(''pan'', JString ''4111'')])) ''t'' sample_registry
      sample_insert ''9'' ''0/1'' = Some [e] \<and>
    jget (document_field e ''new_data'' ''data'') ''pan'' = JString ''4111''"
proof -
  have facts: "''data'' \<notin> set (global_fields sample_registry)"
    "list_all (\<lambda>d. trim_dollar_dot (df_json_path d) \<noteq> ''data'') (table_fields sample_registry ''public'' ''cards'')"
    "jget (jget (columns_to_jsonb (\<lambda>_. Some (jobj [(''pan'', JString ''4111'')])) sample_insert_columns) ''data'') ''pan'' =
      JString ''4111''"
    by code_simp+
  show ?thesis
    using jsonb_paths_not_redacted [OF sample_insert_parsed sample_insert_plain facts(1) facts(2) [unfolded list_all_iff],
        of "\<lambda>_. Some (jobj [(''pan'', JString ''4111'')])" "''t''" "''9''" "''0/1''"] facts(3)
    by auto
qed

text \<open>C19: From the row to the event: an INSERT the format can carry gives one event whose new document
  has every column of the row, masked when it is sensitive and converted as \<open>column_json\<close> says when it
  is not.\<close>

theorem rendered_insert_captured:
  assumes "line_word schema" and "line_word table" and "CHR ''.'' \<notin> set schema"
    and "list_all faithful items" and "items \<noteq> []"
    and "distinct (map pc_name (columns_of_items False items))"
    and "plain_names (columns_of_items False items)"
    and "col \<in> set (columns_of_items False items)"
  shows "\<exists>e. parse_test_decoding from_str now reg (render_line ''INSERT'' schema table items) xid lsn = Some [e] \<and>
    document_field e ''new_data'' (pc_name col) =
      (if sensitivity reg schema table (pc_name col) = Some True then redacted else column_json from_str col)"
proof -
  let ?cols = "columns_of_items False items"
  have "line_word ''INSERT''" by code_simp
  note parsed = parse_rendered_line [OF this assms(1-5)]
  have docs: "change_documents from_str ''INSERT'' ?cols = Some (None, Some (columns_to_jsonb from_str ?cols))"
    by (simp add: change_documents_def)
  have "masked_field reg schema table (all_fields (columns_to_jsonb from_str ?cols))
      (Some (columns_to_jsonb from_str ?cols)) (pc_name col) =
    (if sensitivity reg schema table (pc_name col) = Some True then redacted else column_json from_str col)"
    using assms(8) by (simp add: masked_field_def all_fields_columns jget_def jlookup_columns [OF assms(6,8)])
  then show ?thesis
    using captured_fields [OF parsed docs assms(7), of now reg xid lsn] by auto
qed

theorem rendered_insert_captured_witness:
  "\<exists>e. parse_test_decoding (\<lambda>_. None) ''t'' sample_registry
      (render_line ''INSERT'' ''public'' ''cards'' sample_row_items) ''9'' ''0/1'' = Some [e] \<and>
    document_field e ''new_data'' ''pan'' = redacted"
proof -
  have facts: "line_word ''public''" "line_word ''cards''" "list_all faithful sample_row_items"
    "distinct (map pc_name (columns_of_items False sample_row_items))"
    "plain_names (columns_of_items False sample_row_items)"
    "sensitivity sample_registry ''public'' ''cards'' ''pan'' = Some True"
    by code_simp+
  have "CHR ''.'' \<notin> set ''public''" "sample_row_items \<noteq> []"
    "hd (columns_of_items False sample_row_items) \<in> set (columns_of_items False sample_row_items)"
    "pc_name (hd (columns_of_items False sample_row_items)) = ''pan''"
    by (simp_all add: sample_row_items_def)
  then show ?thesis
    using rendered_insert_captured [OF facts(1,2) _ facts(3) _ facts(4,5),
        of "hd (columns_of_items False sample_row_items)" "\<lambda>_. None" "''t''" sample_registry "''9''" "''0/1''"] facts(6)
    by auto
qed

section \<open>The polling worker\<close>

definition row_events :: "(string \<Rightarrow> json option) \<Rightarrow> (wal_row \<Rightarrow> field_registry) \<Rightarrow> wal_row \<Rightarrow> json list" where
  "row_events from_str reg row =
     (case parse_test_decoding from_str (wr_now row) (reg row) (wr_data row) (wr_xid row) (wr_lsn row) of
        Some es \<Rightarrow> es
      | None \<Rightarrow> [])"

definition rows_events :: "(string \<Rightarrow> json option) \<Rightarrow> (wal_row \<Rightarrow> field_registry) \<Rightarrow> wal_row list \<Rightarrow> json list" where
  "rows_events from_str reg rows = concat (map (row_events from_str reg) rows)"

text \<open>The position shown after a poll: that of the row at which the channel refused an event, or else
  of the last row.\<close>

fun lsn_after :: "(wal_row \<Rightarrow> bool) \<Rightarrow> wal_row list \<Rightarrow> string \<Rightarrow> string" where
  "lsn_after passes [] lsn = lsn"
| "lsn_after passes (row # rows) lsn = (if passes row then lsn_after passes rows (wr_lsn row) else wr_lsn row)"

lemma lsn_after_all: "lsn_after (\<lambda>_. True) rows lsn = (if rows = [] then lsn else wr_lsn (last rows))"
  by (induction rows arbitrary: lsn) auto

lemma send_events_eq:
  "send_events p es s =
     (s\<lparr>wal_event_count := wal_event_count s +
           of_nat (length (takeWhile p es) + (if list_all p es then 0 else 1)),
        wal_sent := wal_sent s @ takeWhile p es\<rparr>, list_all p es)"
  by (induction es arbitrary: s) (simp_all add: Let_def)

lemma process_rows_eq:
  "process_rows from_str reg p rows s =
     (s\<lparr>wal_lsn := lsn_after (\<lambda>r. list_all p (row_events from_str reg r)) rows (wal_lsn s),
        wal_event_count := wal_event_count s +
          of_nat (length (takeWhile p (rows_events from_str reg rows)) +
            (if list_all p (rows_events from_str reg rows) then 0 else 1)),
        wal_sent := wal_sent s @ takeWhile p (rows_events from_str reg rows)\<rparr>,
      list_all p (rows_events from_str reg rows))"
proof (induction rows arbitrary: s)
  case Nil
  then show ?case by (simp add: rows_events_def)
next
  case (Cons row rows)
  have none: "row_events from_str reg row = []"
    if "parse_test_decoding from_str (wr_now row) (reg row) (wr_data row) (wr_xid row) (wr_lsn row) = None"
    using that by (simp add: row_events_def)
  have some: "row_events from_str reg row = es"
    if "parse_test_decoding from_str (wr_now row) (reg row) (wr_data row) (wr_xid row) (wr_lsn row) = Some es" for es
    using that by (simp add: row_events_def)
  have stop: "takeWhile p (es @ more) = takeWhile p es" if "\<not> list_all p es" for es more
    using that by (auto simp: list_all_iff)
  have go: "takeWhile p (es @ more) = es @ takeWhile p more" "takeWhile p es = es" if "list_all p es" for es more
    using that by (simp_all add: list_all_iff)
  show ?case
  proof (cases "parse_test_decoding from_str (wr_now row) (reg row) (wr_data row) (wr_xid row) (wr_lsn row)")
    case None
    then show ?thesis by (simp add: Cons.IH none rows_events_def)
  next
    case (Some es)
    then show ?thesis
      by (cases "list_all p es")
        (simp_all add: Cons.IH send_events_eq some rows_events_def stop go add.assoc)
  qed
qed

text \<open>One poll hands on exactly the events of its rows, in row order, up to the first one the
  channel refuses; it goes on exactly when none is refused. The counter counts every event offered
  (the refused one included, modulo \<open>2^64\<close>) and the position is that of the last row looked at.\<close>

theorem process_rows_exact:
  "process_rows from_str reg p rows s = (s', going) \<longleftrightarrow>
     going = list_all p (rows_events from_str reg rows) \<and>
     s' = \<lparr>wal_lsn = lsn_after (\<lambda>r. list_all p (row_events from_str reg r)) rows (wal_lsn s),
           wal_event_count = wal_event_count s +
             of_nat (length (takeWhile p (rows_events from_str reg rows)) + (if going then 0 else 1)),
           wal_sent = wal_sent s @ takeWhile p (rows_events from_str reg rows)\<rparr>"
  by (cases s) (auto simp: process_rows_eq)

text \<open>What a session reads before it ends: the rows of the polls before the first that fails, nothing
  if the connection, the slot query or the creation of the slot fails.\<close>

fun polled :: "('e + wal_row list) list \<Rightarrow> wal_row list" where
  "polled [] = []"
| "polled (Inl e # polls) = []"
| "polled (Inr rows # polls) = rows @ polled polls"

definition session_opens :: "('e, 'c) wal_session \<Rightarrow> bool" where
  "session_opens env =
     (case ws_pool_get env of
        Inl e \<Rightarrow> False
      | Inr client \<Rightarrow>
          (case ws_slot_exists env client of
             Inl e \<Rightarrow> False
           | Inr True \<Rightarrow> True
           | Inr False \<Rightarrow> \<not> isl (ws_create_slot env client)))"

definition session_rows :: "('e, 'c) wal_session \<Rightarrow> wal_row list" where
  "session_rows env = (if session_opens env then polled (ws_polls env) else [])"

text \<open>A session that opens and whose polls all succeed never ends; no later one is started.\<close>

definition session_lasts :: "('e, 'c) wal_session \<Rightarrow> bool" where
  "session_lasts env \<longleftrightarrow> session_opens env \<and> list_all (\<lambda>p. \<not> isl p) (ws_polls env)"

fun sessions_rows :: "('e, 'c) wal_session list \<Rightarrow> wal_row list" where
  "sessions_rows [] = []"
| "sessions_rows (env # envs) = session_rows env @ (if session_lasts env then [] else sessions_rows envs)"

text \<open>The worker's state after it has handed on all events of some rows.\<close>

definition after_rows ::
  "(string \<Rightarrow> json option) \<Rightarrow> (wal_row \<Rightarrow> field_registry) \<Rightarrow> wal_row list \<Rightarrow> wal_state \<Rightarrow> wal_state" where
  "after_rows from_str reg rows s =
     \<lparr>wal_lsn = (if rows = [] then wal_lsn s else wr_lsn (last rows)),
      wal_event_count = wal_event_count s + of_nat (length (rows_events from_str reg rows)),
      wal_sent = wal_sent s @ rows_events from_str reg rows\<rparr>"

lemma after_rows_Nil [simp]: "after_rows from_str reg [] s = s"
  by (simp add: after_rows_def rows_events_def)

lemma after_rows_append:
  "after_rows from_str reg (rows @ rows') s = after_rows from_str reg rows' (after_rows from_str reg rows s)"
  by (simp add: after_rows_def rows_events_def add.assoc)

lemma process_rows_open: "process_rows from_str reg (\<lambda>_. True) rows s = (after_rows from_str reg rows s, True)"
proof -
  have all: "list_all (\<lambda>_. True) xs" "takeWhile (\<lambda>_. True) xs = xs" for xs :: "json list"
    by (induction xs) simp_all
  then show ?thesis by (cases s) (simp add: process_rows_eq after_rows_def lsn_after_all all)
qed

lemma poll_loop_open:
  "fst (poll_loop from_str reg (\<lambda>_. True) polls s) = after_rows from_str reg (polled polls) s \<and>
   (snd (poll_loop from_str reg (\<lambda>_. True) polls s) = Polling \<longleftrightarrow> list_all (\<lambda>p. \<not> isl p) polls)"
proof (induction polls arbitrary: s)
  case Nil
  then show ?case by simp
next
  case (Cons poll polls)
  then show ?case
    by (cases poll) (simp_all add: process_rows_open after_rows_append)
qed

lemma run_inner_open:
  "fst (run_inner from_str reg (\<lambda>_. True) env s) = after_rows from_str reg (session_rows env) s \<and>
   (snd (run_inner from_str reg (\<lambda>_. True) env s) = Polling \<longleftrightarrow> session_lasts env)"
  using poll_loop_open [of from_str reg "ws_polls env" s]
  by (auto simp: run_inner_def session_rows_def session_lasts_def session_opens_def
      split: sum.splits bool.splits)

text \<open>C25: Over any number of sessions, restarted after an error of the pool, of the slot or of a poll,
  the worker hands on the events of every row it read, once and in the order read: a restart neither
  repeats nor skips one. The count and the position follow. Each row is parsed with the registry that
  is in force at that moment, which the refreshes may change at any time.\<close>

theorem wal_run_exact:
  "wal_run from_str reg (\<lambda>_. True) envs s = after_rows from_str reg (sessions_rows envs) s"
proof (induction envs arbitrary: s)
  case Nil
  then show ?case by simp
next
  case (Cons env envs)
  obtain s1 exit where run: "run_inner from_str reg (\<lambda>_. True) env s = (s1, exit)"
    by (cases "run_inner from_str reg (\<lambda>_. True) env s")
  with run_inner_open [of from_str reg env s]
  have "s1 = after_rows from_str reg (session_rows env) s" "exit = Polling \<longleftrightarrow> session_lasts env"
    by simp_all
  with run Cons.IH show ?case
    by (cases exit) (auto simp: after_rows_append)
qed

end
