(* ===== verification/HashChain.thy ===== *)
theory HashChain
  imports Json
begin

text \<open>
  The hash chain (\<open>forwarder/src/hashchain.rs\<close>). The state is the hash of the last event and a
  64-bit counter. \<open>chain_apply\<close> computes the hash of an event over the previous hash and a payload
  of six of its fields, writes both hashes into the event and moves on.

  The parameter \<open>H\<close> is \<open>hex::encode(Sha256(..))\<close>, from bytes to the lower-case hexadecimal digest;
  the two \<open>update\<close> calls of the hasher feed it the concatenation of their arguments. Assigning into
  an event that is neither \<open>null\<close> nor an object panics in \<open>serde_json\<close>, which is the result \<open>None\<close>.

  \<open>chained H p es\<close> is the specification: the events \<open>es\<close> carry the hashes of a chain that starts
  after the hash \<open>p\<close>.
\<close>

section \<open>Model\<close>

record hash_chain =
  prev_hash :: string
  chain_length :: "64 word"

definition new_chain :: hash_chain where
  "new_chain = \<lparr>prev_hash = [], chain_length = 0\<rparr>"

definition str_or :: "json \<Rightarrow> string \<Rightarrow> string \<Rightarrow> string" where
  "str_or event k d = (case as_str (jget event k) of Some s \<Rightarrow> s | None \<Rightarrow> d)"

definition build_payload :: "json \<Rightarrow> string" where
  "build_payload event =
     (let event_type = str_or event ''event_type'' [];
          event_time = str_or event ''event_time'' [];
          session_user = str_or event ''session_user'' [];
          database = str_or event ''database'' [];
          command_tag = str_or event ''command_tag'' [];
          query_text = str_or event ''query_text'' []
      in event_type @ ''|'' @ event_time @ ''|'' @ session_user @ ''|'' @ database @ ''|'' @
         command_tag @ ''|'' @ query_text)"

definition chain_apply ::
  "(string \<Rightarrow> string) \<Rightarrow> hash_chain \<Rightarrow> json \<Rightarrow> (hash_chain \<times> json \<times> string \<times> string) option" where
  "chain_apply H c event =
     (let payload = build_payload event;
          event_hash = H (prev_hash c @ payload);
          prev = prev_hash c
      in case jset event ''prev_hash'' (JString prev) of
           None \<Rightarrow> None
         | Some event1 \<Rightarrow>
             (case jset event1 ''event_hash'' (JString event_hash) of
                None \<Rightarrow> None
              | Some event2 \<Rightarrow>
                  Some (c\<lparr>prev_hash := event_hash, chain_length := chain_length c + 1\<rparr>,
                        event2, prev, event_hash)))"

text \<open>The chain over the events in the order the processor receives them, until a panic.\<close>

fun chain_all ::
  "(string \<Rightarrow> string) \<Rightarrow> hash_chain \<Rightarrow> json list \<Rightarrow> (hash_chain \<times> json list) option" where
  "chain_all H c [] = Some (c, [])"
| "chain_all H c (e # es) =
     (case chain_apply H c e of
        None \<Rightarrow> None
      | Some (c', e', _) \<Rightarrow>
          (case chain_all H c' es of None \<Rightarrow> None | Some (c'', es') \<Rightarrow> Some (c'', e' # es')))"

section \<open>Specification\<close>

definition link_hash :: "(string \<Rightarrow> string) \<Rightarrow> string \<Rightarrow> json \<Rightarrow> string" where
  "link_hash H p e = H (p @ build_payload e)"

fun chained :: "(string \<Rightarrow> string) \<Rightarrow> string \<Rightarrow> json list \<Rightarrow> bool" where
  "chained H p [] \<longleftrightarrow> True"
| "chained H p (e # es) \<longleftrightarrow>
     as_str (jget e ''prev_hash'') = Some p \<and>
     as_str (jget e ''event_hash'') = Some (link_hash H p e) \<and>
     chained H (link_hash H p e) es"

fun end_hash :: "(string \<Rightarrow> string) \<Rightarrow> string \<Rightarrow> json list \<Rightarrow> string" where
  "end_hash H p [] = p"
| "end_hash H p (e # es) = end_hash H (link_hash H p e) es"

section \<open>Lemmas\<close>

lemma chained_append:
  "chained H p (xs @ ys) \<longleftrightarrow> chained H p xs \<and> chained H (end_hash H p xs) ys"
  by (induction xs arbitrary: p) auto

lemma end_hash_append [simp]: "end_hash H p (xs @ ys) = end_hash H (end_hash H p xs) ys"
  by (induction xs arbitrary: p) auto

text \<open>The two fields a chained event gains are not among the six that are hashed.\<close>

definition hashed_fields :: "string list" where
  "hashed_fields =
     [''event_type'', ''event_time'', ''session_user'', ''database'', ''command_tag'', ''query_text'']"

lemma build_payload_cong:
  "\<forall>k \<in> set hashed_fields. jget e' k = jget e k \<Longrightarrow> build_payload e' = build_payload e"
  by (simp add: build_payload_def str_or_def hashed_fields_def)

lemma chain_apply_Some:
  assumes "chain_apply H c e = Some (c', e', p, h)"
  shows "p = prev_hash c" and "h = link_hash H (prev_hash c) e"
    and "prev_hash c' = h" and "chain_length c' = chain_length c + 1"
    and "jget e' k = (if k = ''event_hash'' then JString h
                      else if k = ''prev_hash'' then JString p else jget e k)"
    and "build_payload e' = build_payload e"
    and "is_object e'"
proof -
  from assms obtain e1 where
      e1: "jset e ''prev_hash'' (JString (prev_hash c)) = Some e1" and
      e2: "jset e1 ''event_hash'' (JString (link_hash H (prev_hash c) e)) = Some e'" and
      rest: "p = prev_hash c" "h = link_hash H (prev_hash c) e"
        "c' = c\<lparr>prev_hash := h, chain_length := chain_length c + 1\<rparr>"
    by (auto simp: chain_apply_def link_hash_def Let_def split: option.splits)
  have get: "jget e' k = (if k = ''event_hash'' then JString h
      else if k = ''prev_hash'' then JString p else jget e k)" for k
    using rest by (simp add: jset_get [OF e2] jset_get [OF e1])
  show "p = prev_hash c" "h = link_hash H (prev_hash c) e" "prev_hash c' = h"
    "chain_length c' = chain_length c + 1" "is_object e'"
    using rest jset_is_object [OF e2] by auto
  show "jget e' k = (if k = ''event_hash'' then JString h
      else if k = ''prev_hash'' then JString p else jget e k)" by (rule get)
  show "build_payload e' = build_payload e" by (rule build_payload_cong) (simp add: get hashed_fields_def)
qed

lemma chain_apply_None: "chain_apply H c e = None \<longleftrightarrow> \<not> (is_null e \<or> is_object e)"
  by (cases e) (simp_all add: chain_apply_def Let_def)

lemma chain_apply_chained:
  assumes "chain_apply H c e = Some (c', e', p, h)"
  shows "chained H (prev_hash c) [e']" and "end_hash H (prev_hash c) [e'] = prev_hash c'"
  using chain_apply_Some [OF assms] by (simp_all add: link_hash_def)

lemma chain_all_chained:
  "chain_all H c es = Some (c', es') \<Longrightarrow>
     chained H (prev_hash c) es' \<and> end_hash H (prev_hash c) es' = prev_hash c'"
proof (induction es arbitrary: c es')
  case Nil
  then show ?case by simp
next
  case (Cons e es)
  then obtain c1 e1 p h es1 where
      app: "chain_apply H c e = Some (c1, e1, p, h)" and
      all: "chain_all H c1 es = Some (c', es1)" and es': "es' = e1 # es1"
    by (auto split: option.splits)
  from Cons.IH [OF all] chain_apply_chained [OF app] show ?case by (simp add: es')
qed

lemma chain_all_Cons_Some:
  assumes "chain_all H c (e # es) = Some (c', es')"
  obtains c1 e1 p h es1 where "chain_apply H c e = Some (c1, e1, p, h)"
    and "chain_all H c1 es = Some (c', es1)" and "es' = e1 # es1"
  using assms by (auto split: option.splits)

lemma chain_all_frame:
  "chain_all H c es = Some (c', es') \<Longrightarrow>
     length es' = length es \<and> chain_length c' = chain_length c + of_nat (length es) \<and>
     map build_payload es' = map build_payload es"
proof (induction es arbitrary: c es')
  case Nil
  then show ?case by simp
next
  case (Cons e es)
  from Cons.prems show ?case
    by (rule chain_all_Cons_Some) (auto dest!: Cons.IH simp: chain_apply_Some(4,6) add.assoc)
qed

lemma chain_all_defined:
  "(\<forall>e \<in> set es. is_null e \<or> is_object e) \<longleftrightarrow> (\<exists>c' es'. chain_all H c es = Some (c', es'))"
proof (induction es arbitrary: c)
  case Nil
  then show ?case by simp
next
  case (Cons e es)
  show ?case
  proof (cases "chain_apply H c e")
    case None
    then show ?thesis using chain_apply_None [of H c e] by simp
  next
    case (Some r)
    obtain c1 e1 p h where r: "r = (c1, e1, p, h)" by (cases r)
    with Some have "is_null e \<or> is_object e"
      using chain_apply_None [of H c e] by auto
    with Some r Cons.IH [of c1] show ?thesis by (auto split: option.splits)
  qed
qed

section \<open>Properties\<close>

text \<open>For every \<open>null\<close> or object event, \<open>apply\<close> returns the previous hash and the digest of
  previous hash and payload, writes exactly these two into the event, leaves every other field and
  the hashed payload as they were, and advances the chain by one.\<close>

theorem chain_apply_correct:
  assumes "is_null e \<or> is_object e"
  shows "\<exists>c' e'. chain_apply H c e = Some (c', e', prev_hash c, link_hash H (prev_hash c) e) \<and>
    prev_hash c' = link_hash H (prev_hash c) e \<and> chain_length c' = chain_length c + 1 \<and>
    jget e' ''prev_hash'' = JString (prev_hash c) \<and>
    jget e' ''event_hash'' = JString (link_hash H (prev_hash c) e) \<and>
    (\<forall>k. k \<notin> {''prev_hash'', ''event_hash''} \<longrightarrow> jget e' k = jget e k) \<and>
    build_payload e' = build_payload e"
proof -
  from assms obtain c' e' p h where app: "chain_apply H c e = Some (c', e', p, h)"
    using chain_apply_None [of H c e] by (cases "chain_apply H c e") auto
  from app show ?thesis using chain_apply_Some [OF app] by auto
qed

theorem chain_apply_correct_witness:
  "\<exists>c' e'. chain_apply (\<lambda>s. ''h'' @ s) new_chain (jobj [(''event_type'', JString ''A'')]) =
      Some (c', e', [], link_hash (\<lambda>s. ''h'' @ s) [] (jobj [(''event_type'', JString ''A'')])) \<and>
    chain_length c' = 1"
  using chain_apply_correct
    [of "jobj [(''event_type'', JString ''A'')]" "\<lambda>s. ''h'' @ s" new_chain]
  by (auto simp: jobj_def new_chain_def)

text \<open>\<open>apply\<close> panics exactly on the events that are neither \<open>null\<close> nor an object, so a
  sequence of events is chained to the end exactly when it holds no such event.\<close>

theorem chain_panics_iff:
  "(chain_apply H c e = None \<longleftrightarrow> \<not> is_null e \<and> \<not> is_object e) \<and>
   (chain_all H c es = None \<longleftrightarrow> (\<exists>e. e \<in> set es \<and> \<not> is_null e \<and> \<not> is_object e))"
  using chain_all_defined [of es H c] chain_apply_None [of H c e]
  by (cases "chain_all H c es") auto

text \<open>C10: The chained events form an unbroken chain from the hash the chain was at: each carries the
  hash of its predecessor and the digest of that hash and its own payload; their number and their
  payloads are those of the input, in its order, and the counter advances by it modulo 2^64.\<close>

theorem chain_all_correct:
  assumes "chain_all H c es = Some (c', es')"
  shows "chained H (prev_hash c) es' \<and> prev_hash c' = end_hash H (prev_hash c) es' \<and>
    map build_payload es' = map build_payload es \<and>
    unat (chain_length c') = (unat (chain_length c) + length es) mod 2 ^ 64"
  using chain_all_chained [OF assms] chain_all_frame [OF assms]
  by (simp add: unat_word_ariths unat_of_nat mod_add_right_eq)

theorem chain_all_correct_witness:
  "\<exists>c' es'. chain_all (\<lambda>s. ''h'' @ s) new_chain [JNull, jobj [(''query_text'', JString ''q'')]] =
      Some (c', es') \<and> chained (\<lambda>s. ''h'' @ s) [] es' \<and> unat (chain_length c') = 2"
proof -
  obtain c' es' where all: "chain_all (\<lambda>s. ''h'' @ s) new_chain
      [JNull, jobj [(''query_text'', JString ''q'')]] = Some (c', es')"
    using chain_all_defined [of "[JNull, jobj [(''query_text'', JString ''q'')]]" "\<lambda>s. ''h'' @ s" new_chain]
    by (auto simp: jobj_def)
  from all chain_all_correct [OF all] show ?thesis by (simp add: new_chain_def)
qed

text \<open>Only six fields are protected: assigning to any other field of an event (its outcome, its
  detail, the client address) leaves its link hash unchanged.\<close>

theorem unhashed_field_change:
  assumes "jset e k x = Some e'" and "k \<notin> set hashed_fields"
  shows "link_hash H p e' = link_hash H p e"
proof -
  have "\<forall>k' \<in> set hashed_fields. jget e' k' = jget e k'"
    using assms(2) by (auto simp: jset_get [OF assms(1)])
  then have "build_payload e' = build_payload e" by (rule build_payload_cong)
  then show ?thesis by (simp add: link_hash_def)
qed

theorem unhashed_field_change_witness:
  "link_hash H [] (JObject [(''success'', JBool False)]) = link_hash H [] JNull"
  using unhashed_field_change [of JNull "''success''" "JBool False"] by (simp add: hashed_fields_def)

text \<open>The separator of the payload is not escaped, so moving text across a field boundary that
  it marks gives an event with the same hash: the user \<open>u|d\<close> on database \<open>x\<close> hashes like the user
  \<open>u\<close> on database \<open>d|x\<close>.\<close>

theorem payload_boundary_moves:
  "link_hash H p (jobj [(''event_type'', JString t), (''event_time'', JString ts),
      (''session_user'', JString (u @ ''|'' @ d)), (''database'', JString x),
      (''command_tag'', JString c), (''query_text'', JString q)]) =
   link_hash H p (jobj [(''event_type'', JString t), (''event_time'', JString ts),
      (''session_user'', JString u), (''database'', JString (d @ ''|'' @ x)),
      (''command_tag'', JString c), (''query_text'', JString q)])"
  by (simp add: link_hash_def build_payload_def str_or_def json_simps)

end
