(* ===== verification/Writer.thy ===== *)
theory Writer
  imports Json
begin

text \<open>
  The batch writer (\<open>forwarder/src/writer.rs\<close>): the retry queue and \<open>write_batch\<close>, which builds one
  multi-row \<open>INSERT\<close> with 18 parameters per event.

  The database is a parameter: \<open>pool_get\<close> is the result of \<open>pool.get()\<close>, and \<open>execute\<close> the result
  of \<open>client.execute(query, params)\<close> on a statement text and its parameters. \<open>print_json\<close> is
  \<open>Value::to_string\<close>. The outcome of a call says which of its four exits it took; the log lines
  carry no other state.
\<close>

section \<open>Model\<close>

record writer =
  retry_queue :: "json list"

definition new_writer :: writer where
  "new_writer = \<lparr>retry_queue = []\<rparr>"

subsection \<open>Columns of an event\<close>

definition str_val :: "json \<Rightarrow> string option" where
  "str_val v = as_str v"

definition unwrap_or_else :: "'a option \<Rightarrow> 'a \<Rightarrow> 'a" where
  "unwrap_or_else x d = (case x of Some v \<Rightarrow> v | None \<Rightarrow> d)"

text \<open>\<open>as_i64().map(|v| v as i32)\<close>: the low 32 bits.\<close>

definition int4_val :: "json \<Rightarrow> 32 word option" where
  "int4_val v = map_option ucast (as_i64 v)"

record event_columns =
  col_event_type :: string
  col_event_time :: string
  col_success :: bool
  col_session_user :: "string option"
  col_client_addr :: "string option"
  col_client_port :: "32 word option"
  col_database :: "string option"
  col_pid :: "32 word option"
  col_application :: "string option"
  col_command_tag :: "string option"
  col_object_type :: "string option"
  col_object_name :: "string option"
  col_schema_name :: "string option"
  col_query_text :: "string option"
  col_sqlstate :: "string option"
  col_detail :: "string option"
  col_prev_hash :: "string option"
  col_event_hash :: "string option"

definition columns_of :: "(json \<Rightarrow> string) \<Rightarrow> json \<Rightarrow> event_columns" where
  "columns_of print_json event =
     \<lparr>col_event_type = unwrap_or_else (str_val (jget event ''event_type'')) ''UNKNOWN'',
      col_event_time = unwrap_or_else (str_val (jget event ''event_time'')) ''1970-01-01T00:00:00Z'',
      col_success = unwrap_or_else (as_bool (jget event ''success'')) False,
      col_session_user = str_val (jget event ''session_user''),
      col_client_addr = str_val (jget event ''client_addr''),
      col_client_port = int4_val (jget event ''client_port''),
      col_database = str_val (jget event ''database''),
      col_pid = int4_val (jget event ''pid''),
      col_application = str_val (jget event ''application''),
      col_command_tag = str_val (jget event ''command_tag''),
      col_object_type = str_val (jget event ''object_type''),
      col_object_name = str_val (jget event ''object_name''),
      col_schema_name = str_val (jget event ''schema_name''),
      col_query_text = str_val (jget event ''query_text''),
      col_sqlstate = str_val (jget event ''sqlstate''),
      col_detail = (if is_null (jget event ''detail'') then None
                    else Some (print_json (jget event ''detail''))),
      col_prev_hash = str_val (jget event ''prev_hash''),
      col_event_hash = str_val (jget event ''event_hash'')\<rparr>"

subsection \<open>The statement\<close>

datatype sql_param =
    PText string
  | PBool bool
  | PTextOpt "string option"
  | PInt4Opt "32 word option"

definition params_of :: "event_columns \<Rightarrow> sql_param list" where
  "params_of c =
     [PText (col_event_type c), PText (col_event_time c), PBool (col_success c),
      PTextOpt (col_session_user c), PTextOpt (col_client_addr c), PInt4Opt (col_client_port c),
      PTextOpt (col_database c), PInt4Opt (col_pid c), PTextOpt (col_application c),
      PTextOpt (col_command_tag c), PTextOpt (col_object_type c), PTextOpt (col_object_name c),
      PTextOpt (col_schema_name c), PTextOpt (col_query_text c), PTextOpt (col_sqlstate c),
      PTextOpt (col_detail c), PTextOpt (col_prev_hash c), PTextOpt (col_event_hash c)]"

definition insert_header :: string where
  "insert_header =
     ''INSERT INTO vibe_audit.events '' @
     ''(event_type, event_time, success, session_user, client_addr, client_port, '' @
     ''database, pid, application, command_tag, object_type, object_name, '' @
     ''schema_name, query_text, sqlstate, detail, prev_hash, event_hash) VALUES ''"

definition dollar :: "32 word \<Rightarrow> string" where
  "dollar i = ''$'' @ show_nat (unat i)"

definition row_text :: "32 word \<Rightarrow> string" where
  "row_text i =
     ''('' @ dollar i @ '', '' @ dollar (i + 1) @ ''::timestamptz, '' @ dollar (i + 2) @ '', '' @
     dollar (i + 3) @ '', '' @ dollar (i + 4) @ ''::inet, '' @ dollar (i + 5) @ '', '' @
     dollar (i + 6) @ '', '' @ dollar (i + 7) @ '', '' @ dollar (i + 8) @ '', '' @
     dollar (i + 9) @ '', '' @ dollar (i + 10) @ '', '' @ dollar (i + 11) @ '', '' @
     dollar (i + 12) @ '', '' @ dollar (i + 13) @ '', '' @ dollar (i + 14) @ '', '' @
     dollar (i + 15) @ ''::jsonb, '' @ dollar (i + 16) @ '', '' @ dollar (i + 17) @ '')''"

record statement =
  stmt_query :: string
  stmt_params :: "sql_param list"
  stmt_param_idx :: "32 word"

definition push_row :: "(json \<Rightarrow> string) \<Rightarrow> nat \<times> json \<Rightarrow> statement \<Rightarrow> statement" where
  "push_row print_json ie st =
     (let (i, event) = ie;
          query1 = (if i > 0 then stmt_query st @ '', '' else stmt_query st);
          query2 = query1 @ row_text (stmt_param_idx st)
      in \<lparr>stmt_query = query2,
          stmt_params = stmt_params st @ params_of (columns_of print_json event),
          stmt_param_idx = stmt_param_idx st + 18\<rparr>)"

definition build_insert :: "(json \<Rightarrow> string) \<Rightarrow> json list \<Rightarrow> statement" where
  "build_insert print_json all_events =
     fold (push_row print_json) (enumerate 0 all_events)
       \<lparr>stmt_query = insert_header, stmt_params = [], stmt_param_idx = 1\<rparr>"

subsection \<open>The retry queue and \<open>write_batch\<close>\<close>

definition max_retry :: nat where
  "max_retry = 10000"

definition push_retry :: "json \<Rightarrow> json list \<Rightarrow> json list" where
  "push_retry event q = (let q1 = (if length q \<ge> max_retry then tl q else q) in q1 @ [event])"

definition enqueue_retries :: "writer \<Rightarrow> json list \<Rightarrow> writer" where
  "enqueue_retries w events = w\<lparr>retry_queue := fold push_retry events (retry_queue w)\<rparr>"

datatype write_outcome =
    EmptyBatch
  | NoConnection
  | Inserted "json list"
  | InsertFailed "json list"

definition write_batch ::
  "(json \<Rightarrow> string) \<Rightarrow> 'e + 'c \<Rightarrow> ('c \<Rightarrow> string \<Rightarrow> sql_param list \<Rightarrow> 'e + 64 word) \<Rightarrow>
   writer \<Rightarrow> json list \<Rightarrow> writer \<times> write_outcome" where
  "write_batch print_json pool_get execute w events =
     (if events = [] then (w, EmptyBatch)
      else
        let retries = retry_queue w;
            w1 = w\<lparr>retry_queue := []\<rparr>;
            all_events = retries @ events
        in case pool_get of
             Inl e \<Rightarrow> (enqueue_retries w1 events, NoConnection)
           | Inr client \<Rightarrow>
               (let st = build_insert print_json all_events
                in case execute client (stmt_query st) (stmt_params st) of
                     Inr n \<Rightarrow> (w1, Inserted all_events)
                   | Inl e \<Rightarrow> (enqueue_retries w1 all_events, InsertFailed all_events)))"

text \<open>The statement of the partition upkeep; its result is only logged.\<close>

datatype partition_outcome = PartitionEnsured | PartitionFailed | PartitionNoConnection

definition ensure_partition ::
  "'e + 'c \<Rightarrow> ('c \<Rightarrow> string \<Rightarrow> sql_param list \<Rightarrow> 'e + 64 word) \<Rightarrow> partition_outcome" where
  "ensure_partition pool_get execute =
     (case pool_get of
        Inl e \<Rightarrow> PartitionNoConnection
      | Inr client \<Rightarrow>
          (case execute client ''SELECT vibe_audit.ensure_partition(CURRENT_DATE)'' [] of
             Inr n \<Rightarrow> PartitionEnsured
           | Inl e \<Rightarrow> PartitionFailed))"

text \<open>A sequence of calls, each with the environment it meets.\<close>

type_synonym ('e, 'c) write_call =
  "('e + 'c) \<times> ('c \<Rightarrow> string \<Rightarrow> sql_param list \<Rightarrow> 'e + 64 word) \<times> json list"

fun write_batches ::
  "(json \<Rightarrow> string) \<Rightarrow> writer \<Rightarrow> ('e, 'c) write_call list \<Rightarrow> writer \<times> write_outcome list" where
  "write_batches print_json w [] = (w, [])"
| "write_batches print_json w ((pg, ex, events) # calls) =
     (let (w1, out) = write_batch print_json pg ex w events;
          (w2, outs) = write_batches print_json w1 calls
      in (w2, out # outs))"

section \<open>Specification\<close>

text \<open>The events a call has stored, and the calls that lose none.\<close>

fun outcome_rows :: "write_outcome \<Rightarrow> json list" where
  "outcome_rows (Inserted es) = es"
| "outcome_rows _ = []"

fun keeps_all :: "write_outcome \<Rightarrow> bool" where
  "keeps_all NoConnection \<longleftrightarrow> False"
| "keeps_all (InsertFailed es) \<longleftrightarrow> length es \<le> max_retry"
| "keeps_all _ \<longleftrightarrow> True"

fun comma_join :: "string list \<Rightarrow> string" where
  "comma_join [] = []"
| "comma_join (t # ts) = t @ concat (map (\<lambda>u. '', '' @ u) ts)"

text \<open>What the statement says of one event: each column it names, the cast of its placeholder, and the
  value bound to it, read from the field of the event with the column's name.\<close>

definition bound_columns :: "(json \<Rightarrow> string) \<Rightarrow> json \<Rightarrow> (string \<times> string \<times> sql_param) list" where
  "bound_columns print_json event =
     (let text_of = (\<lambda>k. as_str (jget event k));
          int_of = (\<lambda>k. map_option ucast (as_i64 (jget event k)))
      in [(''event_type'', [], PText (case text_of ''event_type'' of Some s \<Rightarrow> s | None \<Rightarrow> ''UNKNOWN'')),
          (''event_time'', ''::timestamptz'',
             PText (case text_of ''event_time'' of Some s \<Rightarrow> s | None \<Rightarrow> ''1970-01-01T00:00:00Z'')),
          (''success'', [], PBool (as_bool (jget event ''success'') = Some True)),
          (''session_user'', [], PTextOpt (text_of ''session_user'')),
          (''client_addr'', ''::inet'', PTextOpt (text_of ''client_addr'')),
          (''client_port'', [], PInt4Opt (int_of ''client_port'')),
          (''database'', [], PTextOpt (text_of ''database'')),
          (''pid'', [], PInt4Opt (int_of ''pid'')),
          (''application'', [], PTextOpt (text_of ''application'')),
          (''command_tag'', [], PTextOpt (text_of ''command_tag'')),
          (''object_type'', [], PTextOpt (text_of ''object_type'')),
          (''object_name'', [], PTextOpt (text_of ''object_name'')),
          (''schema_name'', [], PTextOpt (text_of ''schema_name'')),
          (''query_text'', [], PTextOpt (text_of ''query_text'')),
          (''sqlstate'', [], PTextOpt (text_of ''sqlstate'')),
          (''detail'', ''::jsonb'',
             PTextOpt (if jget event ''detail'' = JNull then None else Some (print_json (jget event ''detail'')))),
          (''prev_hash'', [], PTextOpt (text_of ''prev_hash'')),
          (''event_hash'', [], PTextOpt (text_of ''event_hash''))])"

text \<open>The text of row \<open>k\<close> of the statement: its placeholders are numbered on from \<open>18 k + 1\<close>.\<close>

definition row_of_placeholders :: "nat \<Rightarrow> string list \<Rightarrow> string" where
  "row_of_placeholders k casts =
     ''('' @ comma_join (map2 (\<lambda>j c. ''$'' @ show_nat (18 * k + j + 1) @ c) [0..<length casts] casts) @ '')''"

text \<open>The number of parameters a statement of the PostgreSQL protocol can carry.\<close>

definition pg_max_params :: nat where
  "pg_max_params = 65535"

section \<open>Lemmas\<close>

interpretation retry: drop_oldest_buffer push_retry max_retry
  by unfold_locales (auto simp: push_retry_def max_retry_def)

lemma length_params_of [simp]: "length (params_of c) = 18"
  by (simp add: params_of_def)

lemma push_rows_params:
  "stmt_params (fold (push_row pj) ies st) =
     stmt_params st @ concat (map (\<lambda>ie. params_of (columns_of pj (snd ie))) ies)"
  by (induction ies arbitrary: st) (auto simp: push_row_def Let_def split: prod.splits)

lemma build_insert_params:
  "stmt_params (build_insert pj es) = concat (map (params_of \<circ> columns_of pj) es)"
proof -
  have "map (\<lambda>ie. params_of (columns_of pj (snd ie))) (enumerate 0 es) =
      map (params_of \<circ> columns_of pj) (map snd (enumerate 0 es))"
    by (simp only: map_map o_def)
  then show ?thesis by (simp add: build_insert_def push_rows_params map_snd_enumerate)
qed

lemma length_concat_params: "length (concat (map (params_of \<circ> columns_of pj) es)) = 18 * length es"
  by (simp add: length_concat comp_def sum_list_triv)

lemma length_build_insert_params: "length (stmt_params (build_insert pj es)) = 18 * length es"
  by (simp add: build_insert_params length_concat_params)

text \<open>The text and the parameter counter after the rows from position \<open>n\<close> on.\<close>

lemma push_rows_text:
  assumes "stmt_param_idx st = of_nat (1 + 18 * n)" and "0 < n"
  shows "stmt_query (fold (push_row pj) (enumerate n es) st) =
      stmt_query st @ concat (map (\<lambda>k. '', '' @ row_text (of_nat (1 + 18 * k))) [n..<n + length es])"
  using assms
proof (induction es arbitrary: n st)
  case Nil
  then show ?case by simp
next
  case (Cons e es)
  let ?st = "push_row pj (n, e) st"
  have "stmt_param_idx ?st = of_nat (1 + 18 * Suc n)"
    using Cons.prems by (simp add: push_row_def Let_def)
  moreover have "stmt_query ?st = stmt_query st @ '', '' @ row_text (of_nat (1 + 18 * n))"
    using Cons.prems by (simp add: push_row_def Let_def)
  ultimately show ?case
    using Cons.IH [of ?st "Suc n"] by (simp add: upt_conv_Cons del: upt_Suc)
qed

lemma build_insert_text:
  "stmt_query (build_insert pj (e # es)) =
     insert_header @ row_text 1 @
     concat (map (\<lambda>k. '', '' @ row_text (of_nat (1 + 18 * k))) [1..<1 + length es])"
  unfolding build_insert_def
  by (simp add: push_rows_text [where n = 1, simplified] push_row_def Let_def)

lemma write_batch_bounded:
  "length (retry_queue w) \<le> max_retry \<Longrightarrow>
     length (retry_queue (fst (write_batch pj pg ex w es))) \<le> max_retry"
  by (auto simp: write_batch_def Let_def enqueue_retries_def retry.fold_push_bounded split: sum.splits)

lemma write_batch_order:
  assumes "write_batch pj pg ex w es = (w', out)" and "length (retry_queue w) \<le> max_retry"
  shows "subseq (outcome_rows out @ retry_queue w') (retry_queue w @ es)"
    and "keeps_all out \<Longrightarrow> outcome_rows out @ retry_queue w' = retry_queue w @ es"
proof -
  have fits: "length xs \<le> max_retry \<Longrightarrow> fold push_retry xs [] = xs" for xs
    using retry.fold_push_fits [of "[]" xs] by simp
  have sub: "subseq (fold push_retry xs []) xs" for xs
    using retry.fold_push_subseq [of "[]" xs] by simp
  show "subseq (outcome_rows out @ retry_queue w') (retry_queue w @ es)"
    using assms(1) sub [of es] sub [of "retry_queue w @ es"]
    by (auto simp: write_batch_def Let_def enqueue_retries_def list_emb_append2
        split: if_splits sum.splits simp del: fold_append)
  show "outcome_rows out @ retry_queue w' = retry_queue w @ es" if "keeps_all out"
    using assms(1) that fits [of "retry_queue w @ es"]
    by (auto simp: write_batch_def Let_def enqueue_retries_def
        split: if_splits sum.splits simp del: fold_append)
qed

lemma retries_newest: "fold push_retry xs [] = drop (length xs - max_retry) xs"
  using retry.fold_push_keeps_newest [of "[]" xs] by simp

lemma write_batch_failed:
  assumes "es \<noteq> []"
    and "\<exists>e. ex c (stmt_query (build_insert pj (retry_queue w @ es)))
          (stmt_params (build_insert pj (retry_queue w @ es))) = Inl e"
  shows "write_batch pj (Inr c) ex w es =
    (w\<lparr>retry_queue := drop (length (retry_queue w @ es) - max_retry) (retry_queue w @ es)\<rparr>,
     InsertFailed (retry_queue w @ es))"
  using assms by (auto simp: write_batch_def Let_def enqueue_retries_def retries_newest simp del: fold_append)

lemma write_batches_Cons:
  "fst (write_batches pj w ((pg, ex, es) # calls)) =
     fst (write_batches pj (fst (write_batch pj pg ex w es)) calls)"
  "snd (write_batches pj w ((pg, ex, es) # calls)) =
     snd (write_batch pj pg ex w es) # snd (write_batches pj (fst (write_batch pj pg ex w es)) calls)"
  by (simp_all add: case_prod_beta Let_def)

declare write_batches.simps(2) [simp del]

lemma nth_concat_params:
  "k < length es \<Longrightarrow> j < 18 \<Longrightarrow>
     concat (map (params_of \<circ> columns_of pj) es) ! (18 * k + j) = params_of (columns_of pj (es ! k)) ! j"
proof (induction es arbitrary: k)
  case Nil
  then show ?case by simp
next
  case (Cons e es)
  show ?case
  proof (cases k)
    case 0
    with Cons.prems show ?thesis by (simp add: nth_append)
  next
    case (Suc k')
    with Cons show ?thesis by (simp add: nth_append)
  qed
qed

lemma build_insert_query:
  "stmt_query (build_insert pj es) =
     insert_header @ comma_join (map (\<lambda>k. row_text (of_nat (1 + 18 * k))) [0..<length es])"
proof (cases es)
  case Nil
  then show ?thesis by (simp add: build_insert_def)
next
  case (Cons e es')
  then show ?thesis by (simp add: build_insert_text upt_conv_Cons comp_def del: upt_Suc)
qed

lemma upt_18: "[0..<18] = [0, 1, 2, 3, 4, 5, 6, 7, 8, 9, 10, 11, 12, 13, 14, 15, 16, 17 :: nat]"
  by code_simp

lemma insert_header_names:
  "insert_header = ''INSERT INTO vibe_audit.events ('' @ comma_join (map fst (bound_columns pj e)) @ '') VALUES ''"
  by (simp add: insert_header_def bound_columns_def)

lemma params_bound: "params_of (columns_of pj e) = map (snd \<circ> snd) (bound_columns pj e)"
proof -
  have "unwrap_or_else (as_bool x) False = (as_bool x = Some True)" for x
    by (simp add: unwrap_or_else_def split: option.split)
  moreover have "is_null x \<longleftrightarrow> x = JNull" for x by (cases x) simp_all
  ultimately show ?thesis
    by (simp add: params_of_def columns_of_def bound_columns_def str_val_def int4_val_def)
      (simp add: unwrap_or_else_def)
qed

lemma dollar_nat: "18 * k + j + 1 < 2 ^ 32 \<Longrightarrow> dollar (of_nat (1 + 18 * k) + of_nat j) = ''$'' @ show_nat (18 * k + j + 1)"
proof -
  assume bound: "18 * k + j + 1 < 2 ^ 32"
  have "of_nat (1 + 18 * k) + of_nat j = (of_nat (18 * k + j + 1) :: 32 word)" by simp
  then have "unat (of_nat (1 + 18 * k) + of_nat j :: 32 word) = 18 * k + j + 1"
    using bound by (simp only: unat_of_nat) simp
  then show ?thesis by (simp add: dollar_def)
qed

lemma row_text_placeholders:
  assumes "18 * k + 18 < 2 ^ 32"
  shows "row_text (of_nat (1 + 18 * k)) = row_of_placeholders k (map (fst \<circ> snd) (bound_columns pj e))"
proof -
  let ?casts = "map (fst \<circ> snd) (bound_columns pj e)"
  have len: "length ?casts = 18" by (simp add: bound_columns_def)
  have "row_text i = ''('' @ comma_join (map2 (\<lambda>j c. dollar (i + of_nat j) @ c) [0..<18] ?casts) @ '')''" for i
    by (simp add: row_text_def bound_columns_def upt_18)
  moreover have "dollar (of_nat (1 + 18 * k) + of_nat j) @ c = ''$'' @ show_nat (18 * k + j + 1) @ c"
    if "(j, c) \<in> set (zip [0..<18] ?casts)" for j c
  proof -
    have "18 * k + j + 1 < 2 ^ 32" using assms set_zip_leftD [OF that] by simp
    then show ?thesis by (simp only: dollar_nat append_assoc)
  qed
  then have "map2 (\<lambda>j c. dollar (of_nat (1 + 18 * k) + of_nat j) @ c) [0..<18] ?casts =
      map2 (\<lambda>j c. ''$'' @ show_nat (18 * k + j + 1) @ c) [0..<18] ?casts"
    by (intro map_cong refl) (force simp only: prod.case)
  ultimately show ?thesis by (simp only: row_of_placeholders_def len)
qed

section \<open>Properties\<close>

text \<open>C23: The statement binds every column of every event to the right place, for as many events as the
  32-bit counter of the placeholders can number. Its text names the eighteen columns and has one row
  of placeholders per event, those of row \<open>k\<close> numbered from \<open>18 k + 1\<close> to \<open>18 k + 18\<close> in the order of
  the columns, with the casts of the columns; the parameters are, event after event and in the same
  order, the fields of the events with the names of the columns.\<close>

theorem insert_statement_binds:
  assumes "18 * length es < 2 ^ 32"
  shows "stmt_query (build_insert pj es) =
      ''INSERT INTO vibe_audit.events ('' @ comma_join (map fst (bound_columns pj JNull)) @ '') VALUES '' @
      comma_join (map (\<lambda>k. row_of_placeholders k (map (fst \<circ> snd) (bound_columns pj (es ! k)))) [0..<length es]) \<and>
    stmt_params (build_insert pj es) = concat (map (\<lambda>e. map (snd \<circ> snd) (bound_columns pj e)) es)"
proof
  have "map (\<lambda>k. row_text (of_nat (1 + 18 * k))) [0..<length es] =
      map (\<lambda>k. row_of_placeholders k (map (fst \<circ> snd) (bound_columns pj (es ! k)))) [0..<length es]"
    using assms by (intro map_cong refl row_text_placeholders) auto
  then have "stmt_query (build_insert pj es) = insert_header @
      comma_join (map (\<lambda>k. row_of_placeholders k (map (fst \<circ> snd) (bound_columns pj (es ! k)))) [0..<length es])"
    by (simp only: build_insert_query)
  then show "stmt_query (build_insert pj es) =
      ''INSERT INTO vibe_audit.events ('' @ comma_join (map fst (bound_columns pj JNull)) @ '') VALUES '' @
      comma_join (map (\<lambda>k. row_of_placeholders k (map (fst \<circ> snd) (bound_columns pj (es ! k)))) [0..<length es])"
    by (simp only: insert_header_names [of pj JNull] append_assoc)
next
  show "stmt_params (build_insert pj es) = concat (map (\<lambda>e. map (snd \<circ> snd) (bound_columns pj e)) es)"
    by (simp add: build_insert_params comp_def params_bound)
qed

theorem insert_statement_binds_witness:
  "stmt_params (build_insert (\<lambda>_. []) [JNull, jobj [(''event_type'', JString ''DDL'')]]) ! 18 = PText ''DDL''"
  using insert_statement_binds [of "[JNull, jobj [(''event_type'', JString ''DDL'')]]" "\<lambda>_. []"]
  by (simp add: bound_columns_def json_simps)

text \<open>C11: A call of \<open>write_batch\<close> neither duplicates nor reorders events: what it stores, followed by
  what it leaves in the retry queue, is a subsequence of the old queue followed by the batch, and it
  is all of it unless the connection failed or the failed rows exceed the queue's capacity.\<close>

theorem write_batch_conserves:
  assumes "write_batch pj pool_get execute w es = (w', out)"
    and "length (retry_queue w) \<le> max_retry"
  shows "subseq (outcome_rows out @ retry_queue w') (retry_queue w @ es) \<and>
    (keeps_all out \<longrightarrow> outcome_rows out @ retry_queue w' = retry_queue w @ es) \<and>
    length (retry_queue w') \<le> max_retry"
  using write_batch_order [OF assms] write_batch_bounded [OF assms(2), of pj pool_get execute es] assms(1)
  by simp

theorem write_batch_conserves_witness:
  "outcome_rows (Inserted [JNull, JBool True]) @ [] = [JNull] @ [JBool True]"
  using write_batch_conserves
    [of "\<lambda>_. []" "Inr () :: unit + unit" "\<lambda>_ _ _. Inr 2" "\<lparr>retry_queue = [JNull]\<rparr>" "[JBool True]"
      "\<lparr>retry_queue = []\<rparr>" "Inserted [JNull, JBool True]"]
  by (simp add: write_batch_def Let_def max_retry_def)

text \<open>After a failed insert the queue holds the newest 10,000 of the old queue and the batch, in
  order; the oldest are dropped.\<close>

theorem failed_insert_keeps_newest:
  assumes "es \<noteq> []" and "\<And>q ps. execute c q ps = Inl e"
  shows "write_batch pj (Inr c) execute w es =
    (w\<lparr>retry_queue := drop (length (retry_queue w) + length es - max_retry) (retry_queue w @ es)\<rparr>,
     InsertFailed (retry_queue w @ es))"
  using write_batch_failed [OF assms(1), of execute c pj w] assms(2) by simp

theorem failed_insert_keeps_newest_witness:
  "retry_queue (fst (write_batch (\<lambda>_. []) (Inr ()) (\<lambda>_ _ _. Inl ()) \<lparr>retry_queue = [JNull]\<rparr> [JBool True])) =
     [JNull, JBool True]"
  using failed_insert_keeps_newest
    [of "[JBool True]" "\<lambda>_ _ _. Inl ()" "()" "()" "\<lambda>_. []" "\<lparr>retry_queue = [JNull]\<rparr>"]
  by (simp add: max_retry_def)

text \<open>C33: A call that gets no connection discards the retry queue: \<open>write_batch\<close> has taken the queued
  events out before it asks the pool, and its error path puts back only the new batch. An event that
  waited for a retry and is not in the batch is lost.\<close>

theorem no_connection_discards_retries:
  assumes "es \<noteq> []" and "e \<in> set (retry_queue w)" and "e \<notin> set es"
  shows "\<exists>w'. write_batch pj (Inl err) execute w es = (w', NoConnection) \<and> e \<notin> set (retry_queue w') \<and>
    retry_queue w' = drop (length es - max_retry) es"
  using assms set_drop_subset [of "length es - max_retry" es]
  by (auto simp: write_batch_def Let_def enqueue_retries_def retries_newest)

theorem no_connection_discards_retries_witness:
  "\<exists>w'. write_batch (\<lambda>_. []) (Inl ()) (\<lambda>(_ :: unit) _ _. Inl ()) \<lparr>retry_queue = [JNull]\<rparr> [JBool True] =
      (w', NoConnection) \<and> JNull \<notin> set (retry_queue w')"
  using no_connection_discards_retries
    [of "[JBool True]" JNull "\<lparr>retry_queue = [JNull]\<rparr>" "\<lambda>_. []" "()" "\<lambda>(_ :: unit) _ _. Inl ()"]
  by auto

text \<open>C34: A retry queue of 3641 events does not drain while every call gets a connection. The next
  statement would need more than 65535 parameters, which the database refuses; the refused rows return
  to the queue. So no call of such a series stores anything, and the queue stays as long. (A call
  without a connection ends this: it discards the queue.)\<close>

theorem oversized_queue_never_drains:
  assumes "\<forall>call \<in> set calls. \<exists>c ex es. call = (Inr c, ex, es) \<and>
      (\<forall>q ps. length ps > pg_max_params \<longrightarrow> (\<exists>err. ex c q ps = Inl err))"
    and "3641 \<le> length (retry_queue w)"
  shows "3641 \<le> length (retry_queue (fst (write_batches pj w calls))) \<and>
    (\<forall>out \<in> set (snd (write_batches pj w calls)). outcome_rows out = [])"
  using assms
proof (induction calls arbitrary: w)
  case Nil
  then show ?case by simp
next
  case (Cons call calls)
  then obtain c ex es where call: "call = (Inr c, ex, es)"
    and limit: "\<And>q ps. length ps > pg_max_params \<Longrightarrow> \<exists>err. ex c q ps = Inl err" by auto
  let ?st = "build_insert pj (retry_queue w @ es)"
  have "length (stmt_params ?st) > pg_max_params"
    using Cons.prems(2) by (simp add: length_build_insert_params pg_max_params_def)
  then have fail: "\<exists>err. ex c (stmt_query ?st) (stmt_params ?st) = Inl err" by (rule limit)
  have one: "3641 \<le> length (retry_queue (fst (write_batch pj (Inr c) ex w es))) \<and>
      outcome_rows (snd (write_batch pj (Inr c) ex w es)) = []"
    using Cons.prems(2) write_batch_failed [of es ex c pj w, OF _ fail]
    by (cases "es = []") (auto simp: write_batch_def max_retry_def)
  with Cons.IH [of "fst (write_batch pj (Inr c) ex w es)"] Cons.prems(1) show ?case
    by (simp add: call write_batches_Cons)
qed

theorem oversized_queue_never_drains_witness:
  "outcome_rows (snd (write_batch (\<lambda>_. []) (Inr ()) (\<lambda>_ _ ps. if length ps > pg_max_params then Inl () else Inr 0)
     \<lparr>retry_queue = replicate 3641 JNull\<rparr> [JNull])) = []"
  using oversized_queue_never_drains
    [of "[(Inr (), \<lambda>_ _ ps. if length ps > pg_max_params then Inl () else Inr 0, [JNull])]"
        "\<lparr>retry_queue = replicate 3641 JNull\<rparr>" "\<lambda>_. []"]
  by (simp add: write_batches_Cons)

lemma refused_blocks:
  assumes "\<forall>call \<in> set calls. \<exists>c ex es. call = (Inr c, ex, es) \<and>
      (\<forall>evs. b \<in> set evs \<longrightarrow> (\<exists>err. ex c (stmt_query (build_insert pj evs))
         (stmt_params (build_insert pj evs)) = Inl err))"
    and "b \<in> set (retry_queue w)"
    and "length (retry_queue w) + length (concat (map (snd \<circ> snd) calls)) \<le> max_retry"
  shows "retry_queue (fst (write_batches pj w calls)) = retry_queue w @ concat (map (snd \<circ> snd) calls) \<and>
    (\<forall>out \<in> set (snd (write_batches pj w calls)). outcome_rows out = [])"
  using assms
proof (induction calls arbitrary: w)
  case Nil
  then show ?case by simp
next
  case (Cons call calls)
  then obtain c ex es where call: "call = (Inr c, ex, es)"
    and bad: "\<And>evs. b \<in> set evs \<Longrightarrow> \<exists>err. ex c (stmt_query (build_insert pj evs))
         (stmt_params (build_insert pj evs)) = Inl err" by auto
  have fail: "\<exists>err. ex c (stmt_query (build_insert pj (retry_queue w @ es)))
      (stmt_params (build_insert pj (retry_queue w @ es))) = Inl err"
    using Cons.prems(2) by (intro bad) simp
  have one: "retry_queue (fst (write_batch pj (Inr c) ex w es)) = retry_queue w @ es \<and>
      outcome_rows (snd (write_batch pj (Inr c) ex w es)) = []"
    using Cons.prems(3) write_batch_failed [of es ex c pj w, OF _ fail]
    by (cases "es = []") (auto simp: write_batch_def call)
  with Cons.IH [of "fst (write_batch pj (Inr c) ex w es)"] Cons.prems show ?case
    by (simp add: call write_batches_Cons)
qed

text \<open>One event the database refuses blocks all others. While it waits in the queue every
  statement contains it and fails, so nothing is stored and the events pile up behind it, as long as
  the queue has room.\<close>

theorem refused_event_blocks:
  assumes "\<forall>call \<in> set calls. \<exists>c ex es. call = (Inr c, ex, es) \<and>
      (\<forall>evs. b \<in> set evs \<longrightarrow> (\<exists>err. ex c (stmt_query (build_insert pj evs))
         (stmt_params (build_insert pj evs)) = Inl err))"
    and "b \<in> set (retry_queue w)"
    and "length (retry_queue w) + length (concat (map (snd \<circ> snd) calls)) \<le> max_retry"
  shows "retry_queue (fst (write_batches pj w calls)) = retry_queue w @ concat (map (snd \<circ> snd) calls) \<and>
    (\<forall>out \<in> set (snd (write_batches pj w calls)). outcome_rows out = [])"
  by (rule refused_blocks [OF assms])

theorem refused_event_blocks_witness:
  "retry_queue (fst (write_batches (\<lambda>_. []) \<lparr>retry_queue = [JNull]\<rparr>
     [(Inr (), \<lambda>_ _ _. Inl (), [JBool True]), (Inr (), \<lambda>_ _ _. Inl (), [JBool False])])) =
     [JNull, JBool True, JBool False]"
  using refused_event_blocks
    [of "[(Inr (), \<lambda>_ _ _. Inl (), [JBool True]), (Inr (), \<lambda>_ _ _. Inl (), [JBool False])]"
        JNull "\<lambda>_. []" "\<lparr>retry_queue = [JNull]\<rparr>"]
  by (simp add: max_retry_def)

text \<open>A port or a process id is narrowed to 32 bits without a check: a number of the event that
  fits \<open>i64\<close> is stored modulo 2^32, and one that does not is stored as \<open>NULL\<close>.\<close>

theorem int4_val_narrows:
  "(unat n < 2 ^ 63 \<longrightarrow> (\<exists>v. int4_val (JNumber (PosInt n)) = Some v \<and> unat v = unat n mod 2 ^ 32)) \<and>
   (unat n \<ge> 2 ^ 63 \<longrightarrow> int4_val (JNumber (PosInt n)) = None)"
  by (auto simp: int4_val_def unsigned_ucast_eq take_bit_eq_mod)

theorem int4_val_narrows_witness: "\<exists>v. int4_val (JNumber (PosInt 4294967297)) = Some v \<and> unat v = 1"
  using int4_val_narrows [of 4294967297] by simp

end
