(* ===== verification/ChainVerify.thy ===== *)
theory ChainVerify
  imports HashChain Writer
begin

text \<open>
  The stored side of the hash chain: the rows of \<open>vibe_audit.events\<close> and the PL/pgSQL function
  \<open>verify_chain\<close> of \<open>ext/vibe_audit--1.1.sql\<close>, which recomputes the chain in the order of the ids.

  A row holds the columns the writer binds, with \<open>event_time\<close> cast to a timestamp. The parameter
  \<open>to_ts\<close> is the cast \<open>::timestamptz\<close> and \<open>fmt\<close> the \<open>to_char\<close> of the function, in UTC with
  milliseconds; \<open>H\<close> is \<open>encode(digest(.., 'sha256'), 'hex')\<close>.
\<close>

section \<open>Model\<close>

record 'ts audit_row =
  row_id :: nat
  row_time :: 'ts
  row_cols :: event_columns

text \<open>The row the \<open>INSERT\<close> stores for an event under the id it draws.\<close>

definition row_of :: "(string \<Rightarrow> 'ts) \<Rightarrow> (json \<Rightarrow> string) \<Rightarrow> nat \<Rightarrow> json \<Rightarrow> 'ts audit_row" where
  "row_of to_ts print_json i e =
     \<lparr>row_id = i, row_time = to_ts (col_event_time (columns_of print_json e)),
      row_cols = columns_of print_json e\<rparr>"

text \<open>The rows of events stored one after another. The sequence of the ids draws them in increasing
  order and leaves gaps: the ids a failed \<open>INSERT\<close> has drawn are not given out again.\<close>

definition rows_of :: "(string \<Rightarrow> 'ts) \<Rightarrow> (json \<Rightarrow> string) \<Rightarrow> nat list \<Rightarrow> json list \<Rightarrow> 'ts audit_row list" where
  "rows_of to_ts print_json ids es = map2 (row_of to_ts print_json) ids es"

definition drawn_ids :: "nat list \<Rightarrow> json list \<Rightarrow> bool" where
  "drawn_ids ids es \<longleftrightarrow> sorted_wrt (<) ids \<and> length ids = length es"

definition coalesce :: "string option \<Rightarrow> string" where
  "coalesce x = (case x of Some s \<Rightarrow> s | None \<Rightarrow> [])"

definition event_payload :: "('ts \<Rightarrow> string) \<Rightarrow> 'ts audit_row \<Rightarrow> string" where
  "event_payload fmt r =
     (let c = row_cols r
      in col_event_type c @ ''|'' @ fmt (row_time r) @ ''|'' @ coalesce (col_session_user c) @
         ''|'' @ coalesce (col_database c) @ ''|'' @ coalesce (col_command_tag c) @
         ''|'' @ coalesce (col_query_text c))"

record chain_check =
  checked_count :: nat
  valid :: bool
  first_broken_id :: "nat option"

fun verify_loop ::
  "(string \<Rightarrow> string) \<Rightarrow> ('ts \<Rightarrow> string) \<Rightarrow> string \<Rightarrow> nat \<Rightarrow> 'ts audit_row list \<Rightarrow> chain_check" where
  "verify_loop H fmt prev row_count [] =
     \<lparr>checked_count = row_count, valid = True, first_broken_id = None\<rparr>"
| "verify_loop H fmt prev row_count (r # rs) =
     (let row_count' = row_count + 1
      in if col_prev_hash (row_cols r) \<noteq> Some prev
         then \<lparr>checked_count = row_count', valid = False, first_broken_id = Some (row_id r)\<rparr>
         else
           let computed = H (prev @ event_payload fmt r)
           in if col_event_hash (row_cols r) \<noteq> Some computed
              then \<lparr>checked_count = row_count', valid = False, first_broken_id = Some (row_id r)\<rparr>
              else verify_loop H fmt (unwrap_or_else (col_event_hash (row_cols r)) []) row_count' rs)"

definition verify_chain ::
  "(string \<Rightarrow> string) \<Rightarrow> ('ts \<Rightarrow> string) \<Rightarrow> 'ts audit_row list \<Rightarrow> chain_check" where
  "verify_chain H fmt events = verify_loop H fmt [] 0 (sort_key row_id events)"

section \<open>Specification\<close>

text \<open>The rows are the links of a chain that starts after the hash \<open>p\<close>.\<close>

fun linked :: "(string \<Rightarrow> string) \<Rightarrow> ('ts \<Rightarrow> string) \<Rightarrow> string \<Rightarrow> 'ts audit_row list \<Rightarrow> bool" where
  "linked H fmt p [] \<longleftrightarrow> True"
| "linked H fmt p (r # rs) \<longleftrightarrow>
     col_prev_hash (row_cols r) = Some p \<and>
     col_event_hash (row_cols r) = Some (H (p @ event_payload fmt r)) \<and>
     linked H fmt (H (p @ event_payload fmt r)) rs"

definition row_hash :: "'ts audit_row \<Rightarrow> string" where
  "row_hash r = coalesce (col_event_hash (row_cols r))"

definition row_prev :: "'ts audit_row \<Rightarrow> string" where
  "row_prev r = coalesce (col_prev_hash (row_cols r))"

text \<open>The text whose digest the row stores.\<close>

definition digest_input :: "('ts \<Rightarrow> string) \<Rightarrow> 'ts audit_row \<Rightarrow> string" where
  "digest_input fmt r = row_prev r @ event_payload fmt r"

text \<open>An event whose stored columns reproduce the payload that was hashed: its type is a string, and
  its time is a string that survives the cast and the formatting.\<close>

definition storable :: "(string \<Rightarrow> 'ts) \<Rightarrow> ('ts \<Rightarrow> string) \<Rightarrow> json \<Rightarrow> bool" where
  "storable to_ts fmt e \<longleftrightarrow>
     as_str (jget e ''event_type'') \<noteq> None \<and>
     (\<exists>t. as_str (jget e ''event_time'') = Some t \<and> fmt (to_ts t) = t)"

section \<open>Lemmas\<close>

lemma verify_loop_valid: "valid (verify_loop H fmt p n rs) \<longleftrightarrow> linked H fmt p rs"
  by (induction H fmt p n rs rule: verify_loop.induct) (auto simp: Let_def unwrap_or_else_def)

lemma verify_loop_linked:
  "linked H fmt p rs \<Longrightarrow>
     verify_loop H fmt p n rs = \<lparr>checked_count = n + length rs, valid = True, first_broken_id = None\<rparr>"
  by (induction rs arbitrary: p n) (auto simp: Let_def unwrap_or_else_def)

fun rows_end :: "(string \<Rightarrow> string) \<Rightarrow> ('ts \<Rightarrow> string) \<Rightarrow> string \<Rightarrow> 'ts audit_row list \<Rightarrow> string" where
  "rows_end H fmt p [] = p"
| "rows_end H fmt p (r # rs) = rows_end H fmt (H (p @ event_payload fmt r)) rs"

lemma linked_append:
  "linked H fmt p (xs @ ys) \<longleftrightarrow> linked H fmt p xs \<and> linked H fmt (rows_end H fmt p xs) ys"
  by (induction xs arbitrary: p) auto

lemma verify_loop_append:
  "linked H fmt p xs \<Longrightarrow>
     verify_loop H fmt p n (xs @ ys) = verify_loop H fmt (rows_end H fmt p xs) (n + length xs) ys"
  by (induction xs arbitrary: p n) (auto simp: Let_def unwrap_or_else_def)

lemma linked_snoc:
  "linked H fmt p (rs @ [r]) \<Longrightarrow>
     linked H fmt p rs \<and> row_prev r = rows_end H fmt p rs \<and> row_hash r = H (digest_input fmt r)"
  by (auto simp: linked_append row_prev_def row_hash_def digest_input_def coalesce_def)

lemma rows_end_last: "rs \<noteq> [] \<Longrightarrow> linked H fmt p rs \<Longrightarrow> rows_end H fmt p rs = row_hash (last rs)"
  by (induction rs arbitrary: p) (auto simp: row_hash_def coalesce_def)

lemma rows_end_digest: "rs \<noteq> [] \<Longrightarrow> \<exists>x. rows_end H fmt p rs = H x"
  by (induction rs arbitrary: p) (metis rows_end.simps neq_Nil_conv)+

lemma event_payload_row_of:
  "storable to_ts fmt e \<Longrightarrow> event_payload fmt (row_of to_ts pj i e) = build_payload e"
  by (auto simp: storable_def event_payload_def row_of_def columns_of_def build_payload_def str_or_def
      str_val_def unwrap_or_else_def coalesce_def Let_def)

lemma rows_of_Cons [simp]:
  "rows_of to_ts pj (i # ids) (e # es) = row_of to_ts pj i e # rows_of to_ts pj ids es"
  by (simp add: rows_of_def)

lemma rows_of_Nil [simp]: "rows_of to_ts pj ids [] = []" "rows_of to_ts pj [] es = []"
  by (simp_all add: rows_of_def)

lemma length_rows_of [simp]: "length (rows_of to_ts pj ids es) = min (length ids) (length es)"
  by (simp add: rows_of_def)

lemma rows_of_append:
  "length ids = length xs \<Longrightarrow>
     rows_of to_ts pj (ids @ ids') (xs @ ys) = rows_of to_ts pj ids xs @ rows_of to_ts pj ids' ys"
  by (simp add: rows_of_def)

lemma row_ids_rows_of: "length ids = length es \<Longrightarrow> map row_id (rows_of to_ts pj ids es) = ids"
  by (induction ids es rule: list_induct2) (simp_all add: row_of_def)

lemma sort_rows_of: "drawn_ids ids es \<Longrightarrow> sort_key row_id (rows_of to_ts pj ids es) = rows_of to_ts pj ids es"
  by (rule sort_key_id_if_sorted) (simp add: drawn_ids_def row_ids_rows_of strict_sorted_imp_sorted)

text \<open>Events chained by the forwarder are linked once stored.\<close>

lemma chained_linked:
  "length ids = length es \<Longrightarrow> chained H p es \<Longrightarrow> \<forall>e \<in> set es. storable to_ts fmt e \<Longrightarrow>
     linked H fmt p (rows_of to_ts pj ids es) \<and> rows_end H fmt p (rows_of to_ts pj ids es) = end_hash H p es"
proof (induction ids es arbitrary: p rule: list_induct2)
  case Nil
  then show ?case by simp
next
  case (Cons i ids e es)
  then have "event_payload fmt (row_of to_ts pj i e) = build_payload e"
    by (simp add: event_payload_row_of)
  with Cons show ?case
    by (simp add: link_hash_def row_of_def columns_of_def str_val_def)
qed

lemma chained_verifies:
  "drawn_ids ids es \<Longrightarrow> chained H [] es \<Longrightarrow> \<forall>e \<in> set es. storable to_ts fmt e \<Longrightarrow>
     verify_chain H fmt (rows_of to_ts pj ids es) =
       \<lparr>checked_count = length es, valid = True, first_broken_id = None\<rparr>"
  using chained_linked [of ids es H "[]" to_ts fmt pj] verify_loop_linked [of H fmt "[]" "rows_of to_ts pj ids es" 0]
  by (auto simp: verify_chain_def sort_rows_of drawn_ids_def)

text \<open>A table of which the first row not to continue the chain is the one after \<open>xs\<close>.\<close>

lemma first_bad_row:
  assumes "drawn_ids ids (xs @ y # ys)" and "chained H [] xs" and "\<forall>e \<in> set xs. storable to_ts fmt e"
    and "as_str (jget y ''prev_hash'') \<noteq> Some (end_hash H [] xs) \<or>
      as_str (jget y ''event_hash'') \<noteq>
        Some (H (end_hash H [] xs @ event_payload fmt (row_of to_ts pj (ids ! length xs) y)))"
  shows "verify_chain H fmt (rows_of to_ts pj ids (xs @ y # ys)) =
    \<lparr>checked_count = length xs + 1, valid = False, first_broken_id = Some (ids ! length xs)\<rparr>"
proof -
  let ?i = "take (length xs) ids" and ?k = "ids ! length xs" and ?j = "drop (Suc (length xs)) ids"
  have ids: "ids = ?i @ ?k # ?j" and len: "length ?i = length xs"
    using assms(1) by (simp_all add: drawn_ids_def id_take_nth_drop)
  have rows: "rows_of to_ts pj ids (xs @ y # ys) =
      rows_of to_ts pj ?i xs @ row_of to_ts pj ?k y # rows_of to_ts pj ?j ys"
    by (subst ids, subst rows_of_append [OF len]) simp
  have n: "length (rows_of to_ts pj ?i xs) = length xs" using len by simp
  have hashes: "row_id (row_of to_ts pj ?k y) = ?k"
    "col_prev_hash (row_cols (row_of to_ts pj ?k y)) = as_str (jget y ''prev_hash'')"
    "col_event_hash (row_cols (row_of to_ts pj ?k y)) = as_str (jget y ''event_hash'')"
    by (simp_all add: row_of_def columns_of_def str_val_def)
  show ?thesis
    unfolding verify_chain_def sort_rows_of [OF assms(1)]
    unfolding rows
    using assms(4) n chained_linked [OF len assms(2,3), of pj]
      verify_loop_append [of H fmt "[]" "rows_of to_ts pj ?i xs" 0]
    by (auto simp: hashes)
qed

text \<open>The columns of an event reproduce its payload only if it is storable: \<open>fmt\<close> gives a text, so
  the two payloads differ in the type or in the time.\<close>

lemma event_payload_unstorable:
  assumes "\<And>t. fmt t \<noteq> []" and "\<not> storable to_ts fmt e"
  shows "event_payload fmt (row_of to_ts pj i e) \<noteq> build_payload e"
  using assms
  by (auto simp: storable_def event_payload_def row_of_def columns_of_def build_payload_def str_or_def
      str_val_def unwrap_or_else_def coalesce_def Let_def split: option.splits)

text \<open>Storing does not change whether the six hashed fields can be reproduced.\<close>

lemma storable_chain_apply:
  "chain_apply H c e = Some (c', e', p, h) \<Longrightarrow> storable to_ts fmt e' \<longleftrightarrow> storable to_ts fmt e"
  by (simp add: storable_def chain_apply_Some(5))

lemma chain_all_storable:
  "chain_all H c es = Some (c', es') \<Longrightarrow>
     (\<forall>e \<in> set es'. storable to_ts fmt e) \<longleftrightarrow> (\<forall>e \<in> set es. storable to_ts fmt e)"
proof (induction es arbitrary: c es')
  case Nil
  then show ?case by simp
next
  case (Cons e es)
  then obtain c1 e1 p h es1 where
      app: "chain_apply H c e = Some (c1, e1, p, h)" and
      all: "chain_all H c1 es = Some (c', es1)" and es': "es' = e1 # es1"
    by (auto split: option.splits)
  show ?case
    using Cons.IH [OF all] storable_chain_apply [OF app, of to_ts fmt] by (simp add: es')
qed

text \<open>Two linked lists of one length that end in one hash either carry the same payloads, or two
  of their digest inputs at one position collide.\<close>

lemma linked_same_end:
  assumes "\<And>x. length (H x) = 64"
    and "linked H fmt p rs" and "linked H fmt p rs'" and "length rs = length rs'"
    and "rows_end H fmt p rs = rows_end H fmt p rs'"
    and "\<not> (\<exists>i < length rs. digest_input fmt (rs ! i) \<noteq> digest_input fmt (rs' ! i) \<and>
              H (digest_input fmt (rs ! i)) = H (digest_input fmt (rs' ! i)))"
  shows "map (event_payload fmt) rs = map (event_payload fmt) rs'"
  using assms(2-)
proof (induction rs arbitrary: rs' rule: rev_induct)
  case Nil
  then show ?case by simp
next
  case (snoc r rs)
  then obtain ss s where rs': "rs' = ss @ [s]" by (cases rs' rule: rev_cases) auto
  with snoc.prems have len: "length rs = length ss" by simp
  have r: "linked H fmt p rs" "row_prev r = rows_end H fmt p rs" "row_hash r = H (digest_input fmt r)"
    and s: "linked H fmt p ss" "row_prev s = rows_end H fmt p ss" "row_hash s = H (digest_input fmt s)"
    using snoc.prems linked_snoc rs' by blast+
  have "row_hash r = row_hash s"
    using snoc.prems rs' rows_end_last [of "rs @ [r]" H fmt p] rows_end_last [of "ss @ [s]" H fmt p]
    by simp
  with r s have "H (digest_input fmt r) = H (digest_input fmt s)" by simp
  with snoc.prems(5) rs' len have inp: "digest_input fmt r = digest_input fmt s"
    by (metis length_append_singleton lessI nth_append_length)
  have digest_len: "qs \<noteq> [] \<Longrightarrow> length (rows_end H fmt p qs) = 64" for qs
    using rows_end_digest [of qs H fmt p] assms(1) by auto
  have "length (row_prev r) = length (row_prev s)"
    using r s len digest_len [of rs] digest_len [of ss] by (cases "rs = []"; cases "ss = []") auto
  with inp have prev: "row_prev r = row_prev s" and pay: "event_payload fmt r = event_payload fmt s"
    by (auto simp: digest_input_def)
  have "map (event_payload fmt) rs = map (event_payload fmt) ss"
  proof (rule snoc.IH [OF r(1) s(1) len])
    show "rows_end H fmt p rs = rows_end H fmt p ss" using prev r s by simp
    show "\<not> (\<exists>i < length rs. digest_input fmt (rs ! i) \<noteq> digest_input fmt (ss ! i) \<and>
        H (digest_input fmt (rs ! i)) = H (digest_input fmt (ss ! i)))"
    proof
      assume "\<exists>i < length rs. digest_input fmt (rs ! i) \<noteq> digest_input fmt (ss ! i) \<and>
        H (digest_input fmt (rs ! i)) = H (digest_input fmt (ss ! i))"
      then obtain i where "i < length rs" "digest_input fmt (rs ! i) \<noteq> digest_input fmt (ss ! i)"
        "H (digest_input fmt (rs ! i)) = H (digest_input fmt (ss ! i))" by blast
      with snoc.prems(5) rs' len show False
        by (auto simp: nth_append dest!: spec [of _ i])
    qed
  qed
  with pay rs' show ?case by simp
qed

lemma verify_loop_bounds:
  "(first_broken_id (verify_loop H fmt p n rs) = None \<longleftrightarrow> valid (verify_loop H fmt p n rs)) \<and>
   n \<le> checked_count (verify_loop H fmt p n rs) \<and>
   checked_count (verify_loop H fmt p n rs) \<le> n + length rs"
proof (induction rs arbitrary: p n)
  case Nil
  then show ?case by simp
next
  case (Cons r rs)
  show ?case
    using Cons.IH [of "unwrap_or_else (col_event_hash (row_cols r)) []" "Suc n"]
    by (auto simp: Let_def)
qed

lemma verify_sorted:
  "sorted (map row_id rs) \<Longrightarrow> verify_chain H fmt rs = verify_loop H fmt [] 0 rs"
  by (simp add: verify_chain_def sort_key_id_if_sorted)

text \<open>The columns \<open>verify_chain\<close> reads.\<close>

definition checked_columns ::
  "('ts \<Rightarrow> string) \<Rightarrow> 'ts audit_row \<Rightarrow> nat \<times> string option \<times> string option \<times> string" where
  "checked_columns fmt r =
     (row_id r, col_prev_hash (row_cols r), col_event_hash (row_cols r), event_payload fmt r)"

lemma verify_loop_cong:
  "map (checked_columns fmt) rs = map (checked_columns fmt) rs' \<Longrightarrow>
     verify_loop H fmt p n rs = verify_loop H fmt p n rs'"
proof (induction rs arbitrary: rs' p n)
  case Nil
  then show ?case by simp
next
  case (Cons r rs)
  then obtain r' rs'' where "rs' = r' # rs''" "checked_columns fmt r = checked_columns fmt r'"
      "map (checked_columns fmt) rs = map (checked_columns fmt) rs''"
    by (cases rs') auto
  moreover from this have "verify_loop H fmt q k rs = verify_loop H fmt q k rs''" for q k
    using Cons.IH by blast
  ultimately show ?case by (simp add: checked_columns_def Let_def)
qed

text \<open>A digest of 64 characters and a row with its hash, for the examples.\<close>

definition pad64 :: "string \<Rightarrow> string" where
  "pad64 s = take 64 (s @ replicate 64 (CHR ''0''))"

lemma length_pad64: "length (pad64 s) = 64"
  by (simp add: pad64_def)

definition sample_columns :: "string \<Rightarrow> event_columns" where
  "sample_columns user =
     columns_of (\<lambda>_. []) (jobj [(''event_type'', JString ''DDL''), (''session_user'', JString user)])"

definition sample_row :: "string \<Rightarrow> nat \<Rightarrow> string \<Rightarrow> string audit_row" where
  "sample_row p i user =
     (let c = sample_columns user
      in \<lparr>row_id = i, row_time = ''t'',
          row_cols = c\<lparr>col_prev_hash := Some p,
                        col_event_hash := Some (pad64 (p @ ''DDL|t|'' @ user @ ''|||''))\<rparr>\<rparr>)"

lemma sample_row_simps:
  "row_id (sample_row p i u) = i"
  "col_prev_hash (row_cols (sample_row p i u)) = Some p"
  "col_event_hash (row_cols (sample_row p i u)) = Some (pad64 (p @ ''DDL|t|'' @ u @ ''|||''))"
  "event_payload id (sample_row p i u) = ''DDL|t|'' @ u @ ''|||''"
  by (simp_all add: sample_row_def sample_columns_def columns_of_def event_payload_def coalesce_def
      str_val_def unwrap_or_else_def json_simps)

lemma sample_row_valid: "verify_chain pad64 id [sample_row [] i u] =
    \<lparr>checked_count = 1, valid = True, first_broken_id = None\<rparr>"
  by (simp add: verify_chain_def sample_row_simps unwrap_or_else_def)

section \<open>Properties\<close>

text \<open>C12: \<open>verify_chain\<close> accepts a table exactly when its rows, in the order of their ids, are the
  links of one chain from the empty hash; it names a broken row exactly when it rejects, and never
  counts more rows than there are.\<close>

theorem verify_chain_decides:
  "(valid (verify_chain H fmt rs) \<longleftrightarrow> linked H fmt [] (sort_key row_id rs)) \<and>
   (first_broken_id (verify_chain H fmt rs) = None \<longleftrightarrow> valid (verify_chain H fmt rs)) \<and>
   checked_count (verify_chain H fmt rs) \<le> length rs"
  using verify_loop_bounds [of H fmt "[]" 0 "sort_key row_id rs"]
  by (simp add: verify_chain_def verify_loop_valid)

text \<open>Whatever the forwarder chains from its start verifies once it is stored in order: for every
  sequence of events with a string type and a time that survives the cast to a timestamp,
  \<open>verify_chain\<close> accepts all its rows.\<close>

theorem forwarder_chain_verifies:
  assumes "chain_all H new_chain es = Some (c', es')" and "\<forall>e \<in> set es. storable to_ts fmt e"
    and "drawn_ids ids es'"
  shows "verify_chain H fmt (rows_of to_ts pj ids es') =
    \<lparr>checked_count = length es, valid = True, first_broken_id = None\<rparr>"
proof -
  have "chained H [] es'"
    using chain_all_chained [OF assms(1)] by (simp add: new_chain_def)
  then show ?thesis
    using chained_verifies [OF assms(3), of H to_ts fmt pj] chain_all_storable [OF assms(1), of to_ts fmt] assms(2)
      chain_all_frame [OF assms(1)]
    by simp
qed

theorem forwarder_chain_verifies_witness:
  "\<exists>c' es'. chain_all (\<lambda>s. ''h'' @ s) new_chain
      [jobj [(''event_type'', JString ''DDL''), (''event_time'', JString ''t1'')],
       jobj [(''event_type'', JString ''DML''), (''event_time'', JString ''t2'')]] = Some (c', es') \<and>
    checked_count (verify_chain (\<lambda>s. ''h'' @ s) id (rows_of id (\<lambda>_. []) [1, 4] es')) = 2"
proof -
  let ?es = "[jobj [(''event_type'', JString ''DDL''), (''event_time'', JString ''t1'')],
       jobj [(''event_type'', JString ''DML''), (''event_time'', JString ''t2'')]]"
  obtain c' es' where all: "chain_all (\<lambda>s. ''h'' @ s) new_chain ?es = Some (c', es')"
    using chain_all_defined [of ?es "\<lambda>s. ''h'' @ s" new_chain] by (auto simp: jobj_def)
  moreover have "\<forall>e \<in> set ?es. storable id id e"
    by (simp add: storable_def json_simps)
  ultimately show ?thesis
    using forwarder_chain_verifies [OF all, of id id "[1, 4]"] chain_all_frame [OF all]
    by (auto simp: drawn_ids_def)
qed

text \<open>C4: Tamper evidence. Two accepted tables with the same number of rows whose last rows hold the
  same hash carry the same payloads, row by row, unless at some position the two digest inputs are a
  collision of the hash function.\<close>

theorem tamper_evidence:
  assumes "\<And>x. length (H x) = 64"
    and "sorted (map row_id rs)" and "sorted (map row_id rs')"
    and "valid (verify_chain H fmt rs)" and "valid (verify_chain H fmt rs')"
    and "length rs = length rs'" and "rs \<noteq> []" and "row_hash (last rs) = row_hash (last rs')"
  shows "map (event_payload fmt) rs = map (event_payload fmt) rs' \<or>
    (\<exists>i < length rs. digest_input fmt (rs ! i) \<noteq> digest_input fmt (rs' ! i) \<and>
       H (digest_input fmt (rs ! i)) = H (digest_input fmt (rs' ! i)))"
proof -
  have "linked H fmt [] rs" and "linked H fmt [] rs'"
    using assms by (simp_all add: verify_sorted verify_loop_valid)
  moreover from this have "rows_end H fmt [] rs = rows_end H fmt [] rs'"
    using assms(6-8) rows_end_last by (metis length_0_conv)
  ultimately show ?thesis
    using linked_same_end [where H = H, OF assms(1)] assms(6) by blast
qed

theorem tamper_evidence_witness:
  "map (event_payload id) [sample_row [] 1 ''u''] = map (event_payload id) [sample_row [] 7 ''u''] \<or>
    (\<exists>i < 1. digest_input id ([sample_row [] 1 ''u''] ! i) \<noteq> digest_input id ([sample_row [] 7 ''u''] ! i) \<and>
       pad64 (digest_input id ([sample_row [] 1 ''u''] ! i)) = pad64 (digest_input id ([sample_row [] 7 ''u''] ! i)))"
  using tamper_evidence [of pad64 "[sample_row [] 1 ''u'']" "[sample_row [] 7 ''u'']" id]
  by (simp add: length_pad64 sample_row_valid row_hash_def sample_row_simps)

text \<open>C5: Changing the payload of one stored row, and nothing else of it, is found and located: the
  check stops at that row and returns its id, unless the new digest input collides with the old.\<close>

theorem tampered_row_located:
  assumes "sorted (map row_id (xs @ r # ys))" and "valid (verify_chain H fmt (xs @ r # ys))"
    and "row_id r' = row_id r" and "col_prev_hash (row_cols r') = col_prev_hash (row_cols r)"
    and "col_event_hash (row_cols r') = col_event_hash (row_cols r)"
    and "H (digest_input fmt r') \<noteq> H (digest_input fmt r)"
  shows "verify_chain H fmt (xs @ r' # ys) =
    \<lparr>checked_count = length xs + 1, valid = False, first_broken_id = Some (row_id r)\<rparr>"
proof -
  have sorted: "sorted (map row_id (xs @ r' # ys))"
    using assms(1,3) by simp
  have "linked H fmt [] (xs @ r # ys)"
    using assms(1,2) by (simp add: verify_sorted verify_loop_valid)
  then have xs: "linked H fmt [] xs" and r: "col_prev_hash (row_cols r) = Some (rows_end H fmt [] xs)"
      "col_event_hash (row_cols r) = Some (H (rows_end H fmt [] xs @ event_payload fmt r))"
    by (simp_all add: linked_append)
  have "H (rows_end H fmt [] xs @ event_payload fmt r') \<noteq> H (rows_end H fmt [] xs @ event_payload fmt r)"
    using assms(4,6) r(1) by (simp add: digest_input_def row_prev_def coalesce_def)
  with assms(3-5) r show ?thesis
    by (simp add: verify_sorted [OF sorted] verify_loop_append [OF xs] Let_def)
qed

theorem tampered_row_located_witness:
  "first_broken_id (verify_chain pad64 id
     [(sample_row [] 5 ''u'')\<lparr>row_cols := (row_cols (sample_row [] 5 ''u''))\<lparr>col_session_user := Some ''v''\<rparr>\<rparr>]) =
   Some 5"
proof -
  let ?r = "sample_row [] 5 ''u''"
  let ?r' = "?r\<lparr>row_cols := (row_cols ?r)\<lparr>col_session_user := Some ''v''\<rparr>\<rparr>"
  have "pad64 (digest_input id ?r') \<noteq> pad64 (digest_input id ?r)"
    by code_simp
  then show ?thesis
    using tampered_row_located [of "[]" ?r "[]" pad64 id ?r']
    by (simp add: sample_row_valid sample_row_simps)
qed

text \<open>What \<open>verify_chain\<close> does not see. Tables that agree on the ids, the two hashes and the
  payloads get the same verdict, so editing the outcome, the addresses, the object names, the SQL
  state or the detail of stored events goes unnoticed.\<close>

theorem unchecked_columns:
  assumes "sorted (map row_id rs)"
    and "map (checked_columns fmt) rs' = map (checked_columns fmt) rs"
  shows "verify_chain H fmt rs' = verify_chain H fmt rs"
proof -
  have "map row_id qs = map fst (map (checked_columns fmt) qs)" for qs :: "'a audit_row list"
    by (simp add: checked_columns_def)
  then have "sorted (map row_id rs')" using assms by metis
  with assms show ?thesis using verify_loop_cong [OF assms(2)] by (simp add: verify_sorted)
qed

theorem unchecked_columns_witness:
  "valid (verify_chain pad64 id
     [(sample_row [] 5 ''u'')\<lparr>row_cols := (row_cols (sample_row [] 5 ''u''))
        \<lparr>col_success := True, col_client_addr := Some ''10.0.0.1'', col_detail := None\<rparr>\<rparr>])"
  using unchecked_columns [of "[sample_row [] 5 ''u'']" id
    "[(sample_row [] 5 ''u'')\<lparr>row_cols := (row_cols (sample_row [] 5 ''u''))
        \<lparr>col_success := True, col_client_addr := Some ''10.0.0.1'', col_detail := None\<rparr>\<rparr>]" pad64]
  by (simp add: sample_row_valid checked_columns_def event_payload_def Let_def)

text \<open>Cutting off the end of the table is not detected: every prefix of an accepted table is
  accepted.\<close>

theorem truncation_unseen:
  assumes "sorted (map row_id (xs @ ys))" and "valid (verify_chain H fmt (xs @ ys))"
  shows "valid (verify_chain H fmt xs)"
proof -
  have "sorted (map row_id xs)" using assms(1) by (simp add: sorted_append)
  with assms show ?thesis by (simp add: verify_sorted verify_loop_valid linked_append)
qed

theorem truncation_unseen_witness:
  "valid (verify_chain pad64 id [sample_row [] 1 ''u''])"
proof -
  let ?h = "pad64 (''DDL|t|'' @ ''u'' @ ''|||'')"
  have "valid (verify_chain pad64 id ([sample_row [] 1 ''u''] @ [sample_row ?h 2 ''v'']))"
    by (simp add: verify_chain_def sample_row_simps unwrap_or_else_def)
  then show ?thesis
    using truncation_unseen [of "[sample_row [] 1 ''u'']" "[sample_row ?h 2 ''v'']" pad64 id]
    by (simp add: sample_row_simps)
qed

text \<open>C39: A restart breaks the chain. A new process starts again from the empty hash, so in a table
  that holds the events of two runs \<open>verify_chain\<close> stops at the first event of the second run.\<close>

theorem restart_breaks_chain:
  assumes "\<And>x. length (H x) = 64"
    and "chain_all H new_chain xs = Some (c1, xs')" and "\<forall>e \<in> set xs. storable to_ts fmt e" and "xs \<noteq> []"
    and "chain_all H new_chain ys = Some (c2, ys')" and "ys \<noteq> []"
    and "drawn_ids ids (xs' @ ys')"
  shows "verify_chain H fmt (rows_of to_ts pj ids (xs' @ ys')) =
    \<lparr>checked_count = length xs + 1, valid = False, first_broken_id = Some (ids ! length xs)\<rparr>"
proof -
  have lens: "length xs' = length xs" "length ys' = length ys"
    using chain_all_frame assms(2,5) by blast+
  obtain y zs where ys': "ys' = y # zs" using lens(2) assms(6) by (cases ys') auto
  have "chained H [] ys'" using chain_all_chained [OF assms(5)] by (simp add: new_chain_def)
  with ys' have y: "as_str (jget y ''prev_hash'') = Some []" by simp
  have xs': "chained H [] xs'" "\<forall>e \<in> set xs'. storable to_ts fmt e"
    using chain_all_chained [OF assms(2)] chain_all_storable [OF assms(2), of to_ts fmt] assms(3)
    by (simp_all add: new_chain_def)
  have "\<exists>x. end_hash H [] xs' = H x"
    using lens(1) assms(4) by (cases xs' rule: rev_cases) (auto simp: link_hash_def)
  then have "end_hash H [] xs' \<noteq> []" using assms(1) by (metis list.size(3) zero_neq_numeral)
  then show ?thesis
    using first_bad_row [OF assms(7) [unfolded ys'] xs', of pj] y lens by (simp add: ys')
qed

theorem restart_breaks_chain_witness:
  "\<exists>c1 xs'. chain_all pad64 new_chain
      [jobj [(''event_type'', JString ''DDL''), (''event_time'', JString ''t1'')]] = Some (c1, xs') \<and>
    first_broken_id (verify_chain pad64 id (rows_of id (\<lambda>_. []) [1, 5] (xs' @ xs'))) = Some 5"
proof -
  let ?es = "[jobj [(''event_type'', JString ''DDL''), (''event_time'', JString ''t1'')]]"
  obtain c1 xs' where all: "chain_all pad64 new_chain ?es = Some (c1, xs')"
    using chain_all_defined [of ?es pad64 new_chain] by (auto simp: jobj_def)
  moreover have "\<forall>e \<in> set ?es. storable id id e"
    by (simp add: storable_def json_simps)
  moreover have "drawn_ids [1, 5] (xs' @ xs')"
    using chain_all_frame [OF all] by (simp add: drawn_ids_def)
  ultimately show ?thesis
    using restart_breaks_chain [of pad64, OF length_pad64 all, of id id ?es c1 xs' "[1, 5]" "\<lambda>_. []"] by simp
qed

text \<open>C24: An event whose type is not a string, or whose time is not the text \<open>C24: to_char\<close> prints for the
  stored timestamp, breaks the chain although nobody has touched the table: the forwarder hashes the
  event's own type and time, \<open>verify_chain\<close> the type \<open>UNKNOWN\<close> and the printed time. The check stops
  at the row of that event and names it, unless the two texts have the same digest. This is for a
  table that holds one chain from its start, and the first such event in it.\<close>

theorem unstorable_event_breaks_chain:
  assumes "chain_all H new_chain xs = Some (c, xs')" and "\<forall>x \<in> set xs. storable to_ts fmt x"
    and "chain_all H c (e # ys) = Some (c', e' # ys')"
    and "\<not> storable to_ts fmt e" and "\<And>t. fmt t \<noteq> []"
    and "drawn_ids ids (xs' @ e' # ys')"
  shows "verify_chain H fmt (rows_of to_ts pj ids (xs' @ e' # ys')) =
      \<lparr>checked_count = length xs + 1, valid = False, first_broken_id = Some (ids ! length xs)\<rparr> \<or>
    (\<exists>stored. stored \<noteq> build_payload e \<and> H (prev_hash c @ stored) = H (prev_hash c @ build_payload e) \<and>
       stored = event_payload fmt (row_of to_ts pj (ids ! length xs) e'))"
proof -
  obtain c1 p h where app: "chain_apply H c e = Some (c1, e', p, h)"
    using assms(3) by (auto split: option.splits)
  have xs': "chained H [] xs'" "\<forall>e \<in> set xs'. storable to_ts fmt e" "length xs' = length xs"
    "end_hash H [] xs' = prev_hash c"
    using chain_all_chained [OF assms(1)] chain_all_storable [OF assms(1), of to_ts fmt] assms(2)
      chain_all_frame [OF assms(1)]
    by (simp_all add: new_chain_def)
  let ?stored = "event_payload fmt (row_of to_ts pj (ids ! length xs) e')"
  have differs: "?stored \<noteq> build_payload e"
    using event_payload_unstorable [OF assms(5), where e = e' and pj = pj] assms(4)
      storable_chain_apply [OF app, of to_ts fmt] chain_apply_Some(6) [OF app] by simp
  have hash: "as_str (jget e' ''event_hash'') = Some (H (prev_hash c @ build_payload e))"
    using chain_apply_Some(2,5) [OF app] by (simp add: link_hash_def)
  show ?thesis
  proof (cases "H (prev_hash c @ ?stored) = H (prev_hash c @ build_payload e)")
    case True
    with differs show ?thesis by blast
  next
    case False
    then show ?thesis
      using first_bad_row [OF assms(6) xs'(1,2), of pj] hash xs'(3,4) by simp
  qed
qed

theorem unstorable_event_breaks_chain_witness:
  "\<exists>c' e'. chain_all pad64 new_chain [jobj [(''event_type'', JString ''DDL''), (''event_time'', JString ''t1'')]] =
      Some (c', [e']) \<and>
    verify_chain pad64 (\<lambda>t. ''at '' @ t) (rows_of id (\<lambda>_. []) [7] [e']) =
      \<lparr>checked_count = 1, valid = False, first_broken_id = Some 7\<rparr>"
proof -
  let ?e = "jobj [(''event_type'', JString ''DDL''), (''event_time'', JString ''t1'')]"
  let ?fmt = "\<lambda>t :: string. ''at '' @ t"
  obtain c' es' where all: "chain_all pad64 new_chain [?e] = Some (c', es')"
    using chain_all_defined [of "[?e]" pad64 new_chain] by (auto simp: jobj_def)
  then obtain e' where es': "es' = [e']"
    using chain_all_frame [OF all] by (cases es') auto
  have bad: "\<not> storable id ?fmt ?e" by (simp add: storable_def json_simps)
  obtain c1 p h where "chain_apply pad64 new_chain ?e = Some (c1, e', p, h)"
    using all es' by (auto split: option.splits)
  then have get: "jget e' k = jget ?e k" if "k \<in> set hashed_fields" for k
    using that chain_apply_Some(5) by (auto simp: hashed_fields_def)
  have payload: "event_payload ?fmt (row_of id (\<lambda>_. []) 7 e') = ''DDL|at t1||||''"
    using get [of "''event_type''"] get [of "''event_time''"] get [of "''session_user''"]
      get [of "''database''"] get [of "''command_tag''"] get [of "''query_text''"]
    by (simp add: hashed_fields_def event_payload_def row_of_def columns_of_def str_val_def
        unwrap_or_else_def coalesce_def json_simps)
  have own: "build_payload ?e = ''DDL|t1||||''" by (simp add: build_payload_def str_or_def json_simps)
  have "pad64 ''DDL|at t1||||'' \<noteq> pad64 ''DDL|t1||||''" by code_simp
  then show ?thesis
    using unstorable_event_breaks_chain [of pad64 "[]" new_chain "[]" id ?fmt ?e "[]" c' e' "[]" "[7]" "\<lambda>_. []"]
      all es' bad payload own by (auto simp: drawn_ids_def new_chain_def)
qed

end
