(* ===== verification/Gelf.thy ===== *)
theory Gelf
  imports Json
begin

text \<open>
  The GELF forwarder (\<open>forwarder/src/gelf.rs\<close>): the message built from an event, and the steps of
  \<open>send\<close>. Serialisation, compression and the socket are parameters: \<open>to_vec\<close>, \<open>gz_write\<close> (the
  encoder after \<open>write_all\<close>), \<open>gz_finish\<close> and \<open>send_to\<close>, each with its error. The result of
  \<open>send\<close> says at which step it returned; the caller ignores it.
\<close>

section \<open>Model\<close>

record 'addr gelf_forwarder =
  gf_target :: 'addr
  gf_hostname :: string

text \<open>The three ways \<open>new\<close> fails are panics, the result \<open>None\<close>: the socket cannot be bound, or the
  target is not the text of a socket address (\<open>parse_addr\<close>). A failing \<open>hostname::get\<close> is
  \<open>unknown\<close>.\<close>

definition new_gelf_forwarder ::
  "bool \<Rightarrow> (string \<Rightarrow> 'addr option) \<Rightarrow> string option \<Rightarrow> string \<Rightarrow> 16 word \<Rightarrow> 'addr gelf_forwarder option" where
  "new_gelf_forwarder bind_ok parse_addr hostname host port =
     (if \<not> bind_ok then None
      else
        case parse_addr (host @ '':'' @ show_nat (unat port)) of
          None \<Rightarrow> None
        | Some target \<Rightarrow>
            Some \<lparr>gf_target = target,
                  gf_hostname = (case hostname of Some h \<Rightarrow> h | None \<Rightarrow> ''unknown'')\<rparr>)"

definition text_or :: "string \<Rightarrow> json \<Rightarrow> string" where
  "text_or d v = (case as_str v of Some s \<Rightarrow> s | None \<Rightarrow> d)"

definition gelf_level :: "json \<Rightarrow> json" where
  "gelf_level event =
     (if (case as_bool (jget event ''success'') of Some b \<Rightarrow> b | None \<Rightarrow> True)
      then JNumber (PosInt 6) else JNumber (PosInt 3))"

definition short_message :: "json \<Rightarrow> string" where
  "short_message event =
     ''['' @ text_or ''UNKNOWN'' (jget event ''event_type'') @ ''] '' @
     text_or ''?'' (jget event ''session_user'') @ '' @ '' @
     text_or ''?'' (jget event ''database'')"

definition gelf_base :: "string \<Rightarrow> json \<Rightarrow> json" where
  "gelf_base hostname event =
     jobj
       [(''version'', JString ''1.1''),
        (''host'', JString hostname),
        (''short_message'', JString (short_message event)),
        (''level'', gelf_level event),
        (''_event_type'', JString (text_or ''UNKNOWN'' (jget event ''event_type''))),
        (''_success'', jget event ''success''),
        (''_session_user'', jget event ''session_user''),
        (''_database'', jget event ''database''),
        (''_pid'', jget event ''pid''),
        (''_command_tag'', jget event ''command_tag''),
        (''_client_addr'', jget event ''client_addr''),
        (''_sqlstate'', jget event ''sqlstate''),
        (''_event_hash'', jget event ''event_hash''),
        (''_source'', JString ''vibe_audit'')]"

text \<open>\<open>if let Some(s) = v.as_str()\<close> with an assignment into the message.\<close>

definition set_text :: "(string \<Rightarrow> bool) \<Rightarrow> string \<Rightarrow> json \<Rightarrow> json \<Rightarrow> json option" where
  "set_text guard key v gelf =
     (case as_str v of
        Some s \<Rightarrow> (if guard s then jset gelf key (JString s) else Some gelf)
      | None \<Rightarrow> Some gelf)"

definition to_gelf :: "string \<Rightarrow> json \<Rightarrow> json option" where
  "to_gelf hostname event =
     Option.bind (set_text (\<lambda>qt. qt \<noteq> []) ''full_message'' (jget event ''query_text'') (gelf_base hostname event))
       (\<lambda>g1. Option.bind (set_text (\<lambda>_. True) ''_object_type'' (jget event ''object_type'') g1)
         (\<lambda>g2. set_text (\<lambda>_. True) ''_object_name'' (jget event ''object_name'') g2))"

datatype io_error = WouldBlock | OtherIoError

datatype gelf_outcome =
    SerializeFailed
  | CompressFailed
  | FinishFailed
  | SendWouldBlock
  | SendFailed
  | GelfSent string

definition send ::
  "(json \<Rightarrow> 'e + string) \<Rightarrow> (string \<Rightarrow> 'e + 'enc) \<Rightarrow> ('enc \<Rightarrow> 'e + string) \<Rightarrow>
   ('addr \<Rightarrow> string \<Rightarrow> io_error + nat) \<Rightarrow> 'addr gelf_forwarder \<Rightarrow> json \<Rightarrow> gelf_outcome option" where
  "send to_vec gz_write gz_finish send_to fwd event =
     (case to_gelf (gf_hostname fwd) event of
        None \<Rightarrow> None
      | Some gelf \<Rightarrow>
          Some (case to_vec gelf of
            Inl e \<Rightarrow> SerializeFailed
          | Inr json_bytes \<Rightarrow>
              (case gz_write json_bytes of
                 Inl e \<Rightarrow> CompressFailed
               | Inr encoder \<Rightarrow>
                   (case gz_finish encoder of
                      Inl e \<Rightarrow> FinishFailed
                    | Inr compressed \<Rightarrow>
                        (case send_to (gf_target fwd) compressed of
                           Inr n \<Rightarrow> GelfSent compressed
                         | Inl WouldBlock \<Rightarrow> SendWouldBlock
                         | Inl OtherIoError \<Rightarrow> SendFailed)))))"

section \<open>Lemmas\<close>

lemma is_object_gelf_base: "is_object (gelf_base h e)"
  by (simp add: gelf_base_def jobj_def)

text \<open>The value is a string the guard accepts.\<close>

definition text_accepted :: "(string \<Rightarrow> bool) \<Rightarrow> json \<Rightarrow> bool" where
  "text_accepted p v \<longleftrightarrow> (case as_str v of Some s \<Rightarrow> p s | None \<Rightarrow> False)"

lemma set_text_total:
  "is_object g \<Longrightarrow> \<exists>g'. set_text p k v g = Some g' \<and> is_object g' \<and>
     (\<forall>k'. jget g' k' = (if k' = k \<and> text_accepted p v then v else jget g k'))"
  by (cases g; cases v) (auto simp: set_text_def text_accepted_def jget_def obj_get_insert)

lemma to_gelf_fields:
  "\<exists>g. to_gelf h e = Some g \<and> is_object g \<and>
     (\<forall>k. jget g k =
        (if k = ''_object_name'' \<and> text_accepted (\<lambda>_. True) (jget e ''object_name'')
         then jget e ''object_name''
         else if k = ''_object_type'' \<and> text_accepted (\<lambda>_. True) (jget e ''object_type'')
         then jget e ''object_type''
         else if k = ''full_message'' \<and> text_accepted (\<lambda>qt. qt \<noteq> []) (jget e ''query_text'')
         then jget e ''query_text''
         else jget (gelf_base h e) k))"
proof -
  obtain g1 where g1: "set_text (\<lambda>qt. qt \<noteq> []) ''full_message'' (jget e ''query_text'') (gelf_base h e) = Some g1"
      "is_object g1" and k1: "\<And>k. jget g1 k = (if k = ''full_message'' \<and>
        text_accepted (\<lambda>qt. qt \<noteq> []) (jget e ''query_text'') then jget e ''query_text''
        else jget (gelf_base h e) k)"
    using set_text_total [OF is_object_gelf_base] by metis
  obtain g2 where g2: "set_text (\<lambda>_. True) ''_object_type'' (jget e ''object_type'') g1 = Some g2"
      "is_object g2" and k2: "\<And>k. jget g2 k = (if k = ''_object_type'' \<and>
        text_accepted (\<lambda>_. True) (jget e ''object_type'') then jget e ''object_type'' else jget g1 k)"
    using set_text_total [OF g1(2)] by metis
  obtain g3 where g3: "set_text (\<lambda>_. True) ''_object_name'' (jget e ''object_name'') g2 = Some g3"
      "is_object g3" and k3: "\<And>k. jget g3 k = (if k = ''_object_name'' \<and>
        text_accepted (\<lambda>_. True) (jget e ''object_name'') then jget e ''object_name'' else jget g2 k)"
    using set_text_total [OF g2(2)] by metis
  have "to_gelf h e = Some g3" by (simp only: to_gelf_def g1 g2 g3 bind.simps)
  with g3(2) show ?thesis by (simp only: k1 k2 k3 option.inject ex_simps simp_thms)
qed

section \<open>Properties\<close>

text \<open>A text field of the message, absent (\<open>null\<close>) where the event has no text the guard accepts.\<close>

definition text_field :: "(string \<Rightarrow> bool) \<Rightarrow> json \<Rightarrow> json" where
  "text_field guard v = (if text_accepted guard v then v else JNull)"

text \<open>Every event, whatever its shape, gives a message (the assignments never panic), and its
  fields are the event's: an informational level unless \<open>success\<close> is \<open>false\<close>, the query as the full
  message when there is one, the object's type and name when they are texts, and the event's hash.\<close>

theorem to_gelf_exact:
  "case to_gelf h e of
     None \<Rightarrow> False
   | Some g \<Rightarrow>
       is_object g \<and> jget g ''version'' = JString ''1.1'' \<and> jget g ''host'' = JString h \<and>
       jget g ''level'' =
         JNumber (PosInt (if jget e ''success'' = JBool False then 3 else 6)) \<and>
       jget g ''full_message'' = text_field (\<lambda>qt. qt \<noteq> []) (jget e ''query_text'') \<and>
       jget g ''_object_type'' = text_field (\<lambda>_. True) (jget e ''object_type'') \<and>
       jget g ''_object_name'' = text_field (\<lambda>_. True) (jget e ''object_name'') \<and>
       jget g ''_success'' = jget e ''success'' \<and> jget g ''_command_tag'' = jget e ''command_tag'' \<and>
       jget g ''_event_hash'' = jget e ''event_hash''"
proof -
  have level: "gelf_level e = JNumber (PosInt (if jget e ''success'' = JBool False then 3 else 6))"
    by (cases "jget e ''success''") (auto simp: gelf_level_def)
  obtain g where "to_gelf h e = Some g" "is_object g" and get: "\<And>k. jget g k =
        (if k = ''_object_name'' \<and> text_accepted (\<lambda>_. True) (jget e ''object_name'')
         then jget e ''object_name''
         else if k = ''_object_type'' \<and> text_accepted (\<lambda>_. True) (jget e ''object_type'')
         then jget e ''object_type''
         else if k = ''full_message'' \<and> text_accepted (\<lambda>qt. qt \<noteq> []) (jget e ''query_text'')
         then jget e ''query_text''
         else jget (gelf_base h e) k)"
    using to_gelf_fields [of h e] by blast
  then show ?thesis by (simp add: get text_field_def gelf_base_def json_simps level)
qed

text \<open>The fields of an event a message is made from.\<close>

definition gelf_fields :: "string list" where
  "gelf_fields =
     [''event_type'', ''session_user'', ''database'', ''success'', ''pid'', ''command_tag'',
      ''client_addr'', ''sqlstate'', ''event_hash'', ''query_text'', ''object_type'', ''object_name'']"

text \<open>Nothing else of an event leaves over GELF: two events that agree on these twelve fields give
  the same message. In particular the row data under \<open>detail\<close>, the event time and the link to the
  previous event are not sent.\<close>

theorem gelf_hides_other_fields:
  assumes "list_all (\<lambda>k. jget e k = jget e' k) gelf_fields"
  shows "to_gelf h e = to_gelf h e'"
proof -
  have "jget e k = jget e' k" if "k \<in> set gelf_fields" for k
    using assms that by (simp add: list_all_iff)
  note same = this [unfolded gelf_fields_def]
  have "gelf_base h e = gelf_base h e'"
    by (simp add: gelf_base_def short_message_def gelf_level_def same)
  then show ?thesis by (simp add: to_gelf_def same)
qed

theorem gelf_hides_other_fields_witness:
  "to_gelf ''h'' (jobj [(''event_type'', JString ''DATA_CHANGE''), (''detail'', JString ''secret'')]) =
   to_gelf ''h'' (jobj [(''event_type'', JString ''DATA_CHANGE''), (''prev_hash'', JString ''00'')])"
  by (rule gelf_hides_other_fields) code_simp

text \<open>A datagram leaves exactly when the message serialises and compresses and the socket takes it,
  and it is then the compressed message for that event; each failure is told by its step, and no
  failure panics.\<close>

theorem send_exact:
  "\<exists>g out. to_gelf (gf_hostname fwd) event = Some g \<and>
     send to_vec gz_write gz_finish send_to fwd event = Some out \<and>
     (out = SerializeFailed \<longleftrightarrow> isl (to_vec g)) \<and>
     (\<forall>b. out = GelfSent b \<longleftrightarrow>
        (\<exists>bytes enc n. to_vec g = Inr bytes \<and> gz_write bytes = Inr enc \<and> gz_finish enc = Inr b \<and>
           send_to (gf_target fwd) b = Inr n))"
proof -
  obtain g where "to_gelf (gf_hostname fwd) event = Some g" using to_gelf_fields by blast
  then show ?thesis
    by (auto simp: send_def split: sum.splits io_error.splits)
qed

end
