(* ===== verification/Health.thy ===== *)
theory Health
  imports Gelf
begin

text \<open>
  The health state (\<open>forwarder/src/health.rs\<close>): the counters the processor updates, the response of
  \<open>GET /health\<close>, and the heartbeat event. The mutex is never poisoned, since no code that holds it
  panics; the parameters \<open>now\<close> and \<open>pid\<close> are the formatted time and the process id. The handler of
  \<open>GET /health\<close> reads the health data, the position and the two counters one after the other; its
  arguments are what each of the reads has found, possibly at different moments.
\<close>

section \<open>Model\<close>

record health_data =
  events_processed :: "64 word"
  health_chain_length :: "64 word"
  last_event_time :: "string option"

definition new_health :: health_data where
  "new_health = \<lparr>events_processed = 0, health_chain_length = 0, last_event_time = None\<rparr>"

definition update_health :: "64 word \<Rightarrow> string option \<Rightarrow> health_data \<Rightarrow> health_data" where
  "update_health chain_length last_time data =
     data\<lparr>events_processed := events_processed data + 1,
          health_chain_length := chain_length,
          last_event_time := last_time\<rparr>"

record health_response =
  hr_status :: string
  hr_events_processed :: "64 word"
  hr_chain_length :: "64 word"
  hr_last_event_time :: "string option"
  hr_wal_enabled :: bool
  hr_wal_lsn :: string
  hr_wal_events :: "64 word"
  hr_udp_events :: "64 word"

definition health_handler ::
  "health_data \<Rightarrow> bool \<Rightarrow> string \<Rightarrow> 64 word \<Rightarrow> 64 word \<Rightarrow> health_response" where
  "health_handler data wal_enabled lsn wal_count udp_count =
     \<lparr>hr_status = ''ok'',
      hr_events_processed = events_processed data,
      hr_chain_length = health_chain_length data,
      hr_last_event_time = last_event_time data,
      hr_wal_enabled = wal_enabled,
      hr_wal_lsn = lsn,
      hr_wal_events = wal_count,
      hr_udp_events = udp_count\<rparr>"

definition heartbeat_event :: "string \<Rightarrow> 32 word \<Rightarrow> health_data \<Rightarrow> json" where
  "heartbeat_event now pid data =
     jobj
       [(''event_type'', JString ''SYSTEM_EVENT''),
        (''event_time'', JString now),
        (''success'', JBool True),
        (''session_user'', JString ''vibe_audit_forwarder''),
        (''client_addr'', JNull),
        (''client_port'', JNull),
        (''database'', JNull),
        (''pid'', JNumber (PosInt (ucast pid))),
        (''application'', JString ''vibe-audit-forwarder''),
        (''command_tag'', JString ''heartbeat''),
        (''object_type'', JNull),
        (''object_name'', JNull),
        (''schema_name'', JNull),
        (''query_text'', JNull),
        (''sqlstate'', JNull),
        (''detail'', jobj
           [(''type'', JString ''heartbeat''),
            (''events_processed'', JNumber (PosInt (events_processed data))),
            (''chain_length'', JNumber (PosInt (health_chain_length data)))])]"

section \<open>Properties\<close>

text \<open>A heartbeat sends the same GELF message whatever the time and the counters are: it has no
  hash, since it is not chained, and neither its time nor the two counters under \<open>detail\<close> are part
  of the message. Only the process id tells two heartbeats apart.\<close>

theorem heartbeat_message_constant:
  "to_gelf h (heartbeat_event now pid data) = to_gelf h (heartbeat_event now' pid data') \<and>
   (case to_gelf h (heartbeat_event now pid data) of
      None \<Rightarrow> False
    | Some g \<Rightarrow> jget g ''_event_hash'' = JNull \<and> jget g ''_event_type'' = JString ''SYSTEM_EVENT'' \<and>
                jget g ''_pid'' = JNumber (PosInt (ucast pid)))"
proof -
  have "gelf_base h (heartbeat_event now pid data) = gelf_base h (heartbeat_event now' pid data')"
    by (simp add: gelf_base_def short_message_def gelf_level_def heartbeat_event_def json_simps)
  moreover have fields: "jget (heartbeat_event now pid data) ''query_text'' = JNull"
    "jget (heartbeat_event now pid data) ''object_type'' = JNull"
    "jget (heartbeat_event now pid data) ''object_name'' = JNull" for now data
    by (simp_all add: heartbeat_event_def json_simps)
  ultimately have same: "to_gelf h (heartbeat_event now pid data) = to_gelf h (heartbeat_event now' pid data')"
    by (simp add: to_gelf_def)
  obtain g where g: "to_gelf h (heartbeat_event now pid data) = Some g"
    and get: "\<And>k. jget g k = jget (gelf_base h (heartbeat_event now pid data)) k"
    using to_gelf_fields [of h "heartbeat_event now pid data"] by (auto simp: fields text_accepted_def)
  have "jget g ''_event_hash'' = JNull" "jget g ''_event_type'' = JString ''SYSTEM_EVENT''"
    "jget g ''_pid'' = JNumber (PosInt (ucast pid))"
    by (simp_all add: get gelf_base_def text_or_def heartbeat_event_def json_simps)
  then show ?thesis by (intro conjI same) (simp add: g)
qed

text \<open>The health endpoint reports what the processor recorded: after a run of updates, the number of
  updates (modulo \<open>2^64\<close>) on top of the initial zero, and the chain length and time of the last one.\<close>

theorem health_reports_updates:
  "health_handler (fold (\<lambda>(n, t). update_health n t) (us @ [(n, t)]) new_health) wal lsn wals udps =
     \<lparr>hr_status = ''ok'', hr_events_processed = of_nat (length us + 1), hr_chain_length = n,
      hr_last_event_time = t, hr_wal_enabled = wal, hr_wal_lsn = lsn, hr_wal_events = wals,
      hr_udp_events = udps\<rparr>"
proof -
  have "events_processed (fold (\<lambda>(n, t). update_health n t) us d) = events_processed d + of_nat (length us)" for d
    by (induction us arbitrary: d) (auto simp: update_health_def)
  from this [of new_health] show ?thesis
    by (simp add: health_handler_def update_health_def new_health_def add.commute)
qed

end
