(* ===== verification/Listener.thy ===== *)
theory Listener
  imports Json
begin

text \<open>
  The UDP listener (\<open>forwarder/src/listener.rs\<close>): one datagram after the other, parsed as JSON and
  sent to the processor. \<open>from_slice\<close> is \<open>serde_json::from_slice::<Value>\<close>. The input is the list of
  results of \<open>recv_from\<close>; \<open>open_for\<close> tells whether the channel still accepts an event. The buffer
  of 65535 bytes holds every UDP payload.
\<close>

section \<open>Model\<close>

definition recv_buffer :: nat where
  "recv_buffer = 65535"

datatype listener_exit = Listening | ChannelClosed

fun listener_run ::
  "(string \<Rightarrow> json option) \<Rightarrow> (json \<Rightarrow> bool) \<Rightarrow> ('e + string) list \<Rightarrow> json list \<times> listener_exit" where
  "listener_run from_slice open_for [] = ([], Listening)"
| "listener_run from_slice open_for (Inl e # rs) = listener_run from_slice open_for rs"
| "listener_run from_slice open_for (Inr datagram # rs) =
     (case from_slice (take recv_buffer datagram) of
        None \<Rightarrow> listener_run from_slice open_for rs
      | Some event \<Rightarrow>
          (if open_for event
           then (let (events, exit) = listener_run from_slice open_for rs in (event # events, exit))
           else ([], ChannelClosed)))"

section \<open>Lemmas\<close>

text \<open>What the listener hands on: the datagrams that parse, in order.\<close>

definition parsed_datagrams :: "(string \<Rightarrow> json option) \<Rightarrow> ('e + string) list \<Rightarrow> json list" where
  "parsed_datagrams from_slice rs =
     List.map_filter (\<lambda>r. case r of Inl e \<Rightarrow> None | Inr d \<Rightarrow> from_slice (take recv_buffer d)) rs"

section \<open>Properties\<close>

text \<open>The listener hands on exactly the datagrams that are JSON, in the order they arrived, until
  the channel is closed: a malformed datagram or a receive error is passed over and does not stop it,
  and it only returns when an event could not be sent.\<close>

theorem listener_run_exact:
  "listener_run from_slice open_for rs =
     (takeWhile open_for (parsed_datagrams from_slice rs),
      if list_all open_for (parsed_datagrams from_slice rs) then Listening else ChannelClosed)"
  by (induction rs rule: listener_run.induct [where ?P = "\<lambda>f p rs. listener_run f p rs =
        (takeWhile p (parsed_datagrams f rs),
         if list_all p (parsed_datagrams f rs) then Listening else ChannelClosed)"])
    (auto simp: parsed_datagrams_def map_filter_simps split: option.splits)


end
