(* ===== verification/Forwarder.thy ===== *)
theory Forwarder
  imports ChainVerify WalCapture Health Listener Settings
begin

text \<open>
  The processor task and the composition of the tasks (\<open>forwarder/src/main.rs\<close>).

  \<open>processor_event\<close> is the body of the \<open>rx.recv()\<close> branch and \<open>processor_tick\<close> that of the flush
  timer; both take the answers of the database at that moment (\<open>pool_get\<close>, \<open>execute\<close>). A panic of
  the task is \<open>None\<close>, and \<open>processor_panic\<close> is what it leaves behind. The fields \<open>pr_received\<close>,
  \<open>pr_chained\<close> and \<open>pr_panicked\<close> are history variables (the events taken from the channel, before
  and after \<open>chain_apply\<close>, and the one at which it panicked), and \<open>pr_gelf\<close> and \<open>pr_outcomes\<close>
  record what \<open>send\<close> and \<open>write_batch\<close> returned; no operation reads any of the five.

  \<open>fw_step\<close> is one step of one task, and the tasks interleave in any order: the UDP listener, the WAL
  worker (a row, the count of an event and its sending are separate steps), the registry refresh, the
  processor (an event, or a tick of the flush timer), the health server, the heartbeat and the
  partition upkeep. They meet at the bounded channel, the counters, the registry and the health
  state. \<open>fw_accepted\<close>, \<open>fw_beats\<close> and \<open>fw_partitions\<close> are history variables too.

  \<open>main\<close> waits in a \<open>select!\<close> for the first task to end and then ends the process, which no step
  leaves: \<open>fw_running\<close> is false. The listener ends when its port cannot be bound (it also returns when
  the channel is closed, which happens only when the processor has ended), the health server when its
  port cannot be bound or \<open>serve\<close> ends, the processor when it panics; the loops of the other tasks
  have no exit. What is left out: the steps other tasks may still take between the end of a task and
  the return of \<open>main\<close>, and the moments inside a step of the processor, which is atomic here: what it
  writes (counters, health, writer) no other task writes, but a reader of the counters can see an
  event counted that is not yet in the health state. When WAL capture is disabled the steps of its
  worker do not occur.
\<close>

section \<open>The processor\<close>

record ('e, 'enc, 'addr) services =
  sv_hash :: "string \<Rightarrow> string"
  sv_print :: "json \<Rightarrow> string"
  sv_to_vec :: "json \<Rightarrow> 'e + string"
  sv_gz_write :: "string \<Rightarrow> 'e + 'enc"
  sv_gz_finish :: "'enc \<Rightarrow> 'e + string"
  sv_send_to :: "'addr \<Rightarrow> string \<Rightarrow> io_error + nat"
  sv_gelf :: "'addr gelf_forwarder"

record processor =
  pr_chain :: hash_chain
  pr_batch :: "json list"
  pr_writer :: writer
  pr_health :: health_data
  pr_udp_count :: "64 word"
  pr_gelf :: "gelf_outcome list"
  pr_outcomes :: "write_outcome list"
  pr_received :: "json list"
  pr_chained :: "json list"
  pr_panicked :: "json option"

definition new_processor :: processor where
  "new_processor =
     \<lparr>pr_chain = new_chain, pr_batch = [], pr_writer = new_writer, pr_health = new_health,
      pr_udp_count = 0, pr_gelf = [], pr_outcomes = [], pr_received = [], pr_chained = [],
      pr_panicked = None\<rparr>"

definition batch_limit :: nat where
  "batch_limit = 100"

definition is_wal_event :: "json \<Rightarrow> bool" where
  "is_wal_event event \<longleftrightarrow>
     Option.bind (Option.bind (jlookup event ''detail'') (\<lambda>d. jlookup d ''source'')) as_str = Some ''wal''"

definition count_udp :: "json \<Rightarrow> processor \<Rightarrow> processor" where
  "count_udp event p =
     (if \<not> is_wal_event event then p\<lparr>pr_udp_count := pr_udp_count p + 1\<rparr> else p)"

lemma is_wal_event_eq: "is_wal_event e \<longleftrightarrow> as_str (jget (jget e ''detail'') ''source'') = Some ''wal''"
  by (simp add: is_wal_event_def jget_def split: option.split)

definition flush_batch ::
  "('e, 'enc, 'addr) services \<Rightarrow> 'd + 'c \<Rightarrow> ('c \<Rightarrow> string \<Rightarrow> sql_param list \<Rightarrow> 'd + 64 word) \<Rightarrow>
   processor \<Rightarrow> processor" where
  "flush_batch sv pool_get execute p =
     (let (w, out) = write_batch (sv_print sv) pool_get execute (pr_writer p) (pr_batch p)
      in p\<lparr>pr_writer := w, pr_batch := [], pr_outcomes := pr_outcomes p @ [out]\<rparr>)"

definition gelf_send :: "('e, 'enc, 'addr) services \<Rightarrow> json \<Rightarrow> gelf_outcome option" where
  "gelf_send sv event =
     send (sv_to_vec sv) (sv_gz_write sv) (sv_gz_finish sv) (sv_send_to sv) (sv_gelf sv) event"

definition processor_event ::
  "('e, 'enc, 'addr) services \<Rightarrow> 'd + 'c \<Rightarrow> ('c \<Rightarrow> string \<Rightarrow> sql_param list \<Rightarrow> 'd + 64 word) \<Rightarrow>
   processor \<Rightarrow> json \<Rightarrow> processor option" where
  "processor_event sv pool_get execute p event =
     (let p1 = count_udp event p
      in case chain_apply (sv_hash sv) (pr_chain p1) event of
           None \<Rightarrow> None
         | Some (c, event', _) \<Rightarrow>
             (let event_time = as_str (jget event' ''event_time'');
                  p2 = p1\<lparr>pr_chain := c,
                          pr_health := update_health (chain_length c) event_time (pr_health p1),
                          pr_received := pr_received p1 @ [event],
                          pr_chained := pr_chained p1 @ [event']\<rparr>
              in case gelf_send sv event' of
                   None \<Rightarrow> None
                 | Some out \<Rightarrow>
                     (let p3 = p2\<lparr>pr_gelf := pr_gelf p2 @ [out], pr_batch := pr_batch p2 @ [event']\<rparr>
                      in Some (if length (pr_batch p3) \<ge> batch_limit
                               then flush_batch sv pool_get execute p3 else p3))))"

text \<open>The panic comes out of \<open>chain.apply\<close>, after the event has been counted.\<close>

definition processor_panic :: "json \<Rightarrow> processor \<Rightarrow> processor" where
  "processor_panic event p = (count_udp event p)\<lparr>pr_panicked := Some event\<rparr>"

definition processor_tick ::
  "('e, 'enc, 'addr) services \<Rightarrow> 'd + 'c \<Rightarrow> ('c \<Rightarrow> string \<Rightarrow> sql_param list \<Rightarrow> 'd + 64 word) \<Rightarrow>
   processor \<Rightarrow> processor" where
  "processor_tick sv pool_get execute p =
     (if pr_batch p \<noteq> [] then flush_batch sv pool_get execute p else p)"

section \<open>The tasks together\<close>

definition channel_capacity :: nat where
  "channel_capacity = 10000"

text \<open>A task with a port: before the port is bound, in its loop, and after its end.\<close>

datatype service_state = Starting | Serving | Ended

record fw_state =
  fw_listener :: service_state
  fw_health :: service_state
  fw_channel :: "json list"
  fw_proc :: processor
  fw_registry :: field_registry
  fw_rows :: "wal_row list"
  fw_out :: "json list"
  fw_sending :: "json option"
  fw_wal :: wal_state
  fw_beats :: "(json \<times> gelf_outcome) list"
  fw_partitions :: "partition_outcome list"
  fw_accepted :: "json list"
  fw_running :: bool

definition new_wal_state :: wal_state where
  "new_wal_state = \<lparr>wal_lsn = [], wal_event_count = 0, wal_sent = []\<rparr>"

definition start_state :: "string \<Rightarrow> fw_state" where
  "start_state csv =
     \<lparr>fw_listener = Starting, fw_health = Starting, fw_channel = [], fw_proc = new_processor,
      fw_registry = new_registry csv, fw_rows = [], fw_out = [], fw_sending = None, fw_wal = new_wal_state,
      fw_beats = [], fw_partitions = [], fw_accepted = [], fw_running = True\<rparr>"

definition fw_start :: "string \<Rightarrow> fw_state \<Rightarrow> bool" where
  "fw_start csv s \<longleftrightarrow> s = start_state csv"

definition enqueue :: "json \<Rightarrow> fw_state \<Rightarrow> fw_state" where
  "enqueue event s =
     s\<lparr>fw_channel := fw_channel s @ [event], fw_accepted := fw_accepted s @ [event]\<rparr>"

definition events_or_none :: "json list option \<Rightarrow> json list" where
  "events_or_none x = (case x of Some es \<Rightarrow> es | None \<Rightarrow> [])"

text \<open>The answers of the database in the composed system: an error is the text that is logged, and a
  connection has no state of its own, since \<open>execute\<close> is chosen anew at every step.\<close>

type_synonym pool_answer = "string + unit"

type_synonym execute_answer = "unit \<Rightarrow> string \<Rightarrow> sql_param list \<Rightarrow> string + 64 word"

inductive fw_step ::
  "('e, 'enc, 'addr) services \<Rightarrow> (string \<Rightarrow> json option) \<Rightarrow>
   fw_state \<Rightarrow> fw_state \<Rightarrow> bool"
  for sv :: "('e, 'enc, 'addr) services" and parse :: "string \<Rightarrow> json option"
where
  listener_bound:
    "fw_running s \<Longrightarrow> fw_listener s = Starting \<Longrightarrow> fw_step sv parse s (s\<lparr>fw_listener := Serving\<rparr>)"
| listener_unbound:
    "fw_running s \<Longrightarrow> fw_listener s = Starting \<Longrightarrow>
     fw_step sv parse s (s\<lparr>fw_listener := Ended, fw_running := False\<rparr>)"
| health_bound:
    "fw_running s \<Longrightarrow> fw_health s = Starting \<Longrightarrow> fw_step sv parse s (s\<lparr>fw_health := Serving\<rparr>)"
| health_ended:
    "fw_running s \<Longrightarrow> fw_health s \<noteq> Ended \<Longrightarrow>
     fw_step sv parse s (s\<lparr>fw_health := Ended, fw_running := False\<rparr>)"
| udp_accept:
    "fw_running s \<Longrightarrow> fw_listener s = Serving \<Longrightarrow> parse (take recv_buffer d) = Some event \<Longrightarrow>
     length (fw_channel s) < channel_capacity \<Longrightarrow> fw_step sv parse s (enqueue event s)"
| udp_malformed:
    "fw_running s \<Longrightarrow> fw_listener s = Serving \<Longrightarrow> parse (take recv_buffer d) = None \<Longrightarrow>
     fw_step sv parse s s"
| udp_recv_error:
    "fw_running s \<Longrightarrow> fw_listener s = Serving \<Longrightarrow> fw_step sv parse s s"
| wal_poll:
    "fw_running s \<Longrightarrow> fw_rows s = [] \<Longrightarrow> fw_out s = [] \<Longrightarrow> fw_sending s = None \<Longrightarrow>
     fw_step sv parse s (s\<lparr>fw_rows := rows\<rparr>)"
| wal_row:
    "fw_running s \<Longrightarrow> fw_rows s = row # rows \<Longrightarrow> fw_out s = [] \<Longrightarrow> fw_sending s = None \<Longrightarrow>
     fw_step sv parse s
       (s\<lparr>fw_rows := rows,
          fw_wal := (fw_wal s)\<lparr>wal_lsn := wr_lsn row\<rparr>,
          fw_out := events_or_none (parse_test_decoding parse (wr_now row) (fw_registry s)
                      (wr_data row) (wr_xid row) (wr_lsn row))\<rparr>)"
| wal_count:
    "fw_running s \<Longrightarrow> fw_out s = event # events \<Longrightarrow> fw_sending s = None \<Longrightarrow>
     fw_step sv parse s
       (s\<lparr>fw_out := events, fw_sending := Some event,
          fw_wal := (fw_wal s)\<lparr>wal_event_count := wal_event_count (fw_wal s) + 1\<rparr>\<rparr>)"
| wal_send:
    "fw_running s \<Longrightarrow> fw_sending s = Some event \<Longrightarrow> length (fw_channel s) < channel_capacity \<Longrightarrow>
     fw_step sv parse s
       (enqueue event
         (s\<lparr>fw_sending := None, fw_wal := (fw_wal s)\<lparr>wal_sent := wal_sent (fw_wal s) @ [event]\<rparr>\<rparr>))"
| refresh:
    "fw_running s \<Longrightarrow>
     fw_step sv parse s
       (s\<lparr>fw_registry := refresh_cache (pool_get :: pool_answer) (query :: unit \<Rightarrow> string + field_row list) (fw_registry s)\<rparr>)"
| process:
    "fw_running s \<Longrightarrow> fw_channel s = event # events \<Longrightarrow>
     processor_event sv (pool_get :: pool_answer) (execute :: execute_answer) (fw_proc s) event = Some p \<Longrightarrow>
     fw_step sv parse s (s\<lparr>fw_channel := events, fw_proc := p\<rparr>)"
| process_panic:
    "fw_running s \<Longrightarrow> fw_channel s = event # events \<Longrightarrow>
     processor_event sv (pool_get :: pool_answer) (execute :: execute_answer) (fw_proc s) event = None \<Longrightarrow>
     fw_step sv parse s
       (s\<lparr>fw_channel := events, fw_proc := processor_panic event (fw_proc s), fw_running := False\<rparr>)"
| tick:
    "fw_running s \<Longrightarrow>
     fw_step sv parse s (s\<lparr>fw_proc := processor_tick sv (pool_get :: pool_answer) (execute :: execute_answer) (fw_proc s)\<rparr>)"
| heartbeat:
    "fw_running s \<Longrightarrow> event = heartbeat_event now pid (pr_health (fw_proc s)) \<Longrightarrow>
     gelf_send sv event = Some out \<Longrightarrow>
     fw_step sv parse s (s\<lparr>fw_beats := fw_beats s @ [(event, out)]\<rparr>)"
| partition_upkeep:
    "fw_running s \<Longrightarrow>
     fw_step sv parse s
       (s\<lparr>fw_partitions := fw_partitions s @ [ensure_partition (pool_get :: pool_answer) (execute :: execute_answer)]\<rparr>)"

section \<open>Specification\<close>

text \<open>The events the database has stored, in the order of their rows.\<close>

definition stored :: "processor \<Rightarrow> json list" where
  "stored p = concat (map outcome_rows (pr_outcomes p))"

text \<open>The events that are still on their way to the database.\<close>

definition pending :: "processor \<Rightarrow> json list" where
  "pending p = retry_queue (pr_writer p) @ pr_batch p"

definition lossless :: "processor \<Rightarrow> bool" where
  "lossless p \<longleftrightarrow> list_all keeps_all (pr_outcomes p)"

definition chain_inv :: "(string \<Rightarrow> string) \<Rightarrow> processor \<Rightarrow> bool" where
  "chain_inv H p \<longleftrightarrow>
     chain_all H new_chain (pr_received p) = Some (pr_chain p, pr_chained p)"

definition panicked_events :: "processor \<Rightarrow> json list" where
  "panicked_events p = (case pr_panicked p of None \<Rightarrow> [] | Some e \<Rightarrow> [e])"

definition count_inv :: "processor \<Rightarrow> bool" where
  "count_inv p \<longleftrightarrow>
     chain_length (pr_chain p) = of_nat (length (pr_received p)) \<and>
     events_processed (pr_health p) = of_nat (length (pr_received p)) \<and>
     health_chain_length (pr_health p) = chain_length (pr_chain p) \<and>
     last_event_time (pr_health p) =
       (if pr_received p = [] then None else as_str (jget (last (pr_received p)) ''event_time'')) \<and>
     pr_udp_count p =
       of_nat (length (filter (\<lambda>e. \<not> is_wal_event e) (pr_received p @ panicked_events p))) \<and>
     length (pr_gelf p) = length (pr_received p)"

definition queue_inv :: "processor \<Rightarrow> bool" where
  "queue_inv p \<longleftrightarrow>
     length (pr_batch p) < batch_limit \<and> length (retry_queue (pr_writer p)) \<le> max_retry"

definition order_inv :: "processor \<Rightarrow> bool" where
  "order_inv p \<longleftrightarrow>
     subseq (stored p @ pending p) (pr_chained p) \<and>
     (lossless p \<longrightarrow> stored p @ pending p = pr_chained p)"

definition proc_inv :: "(string \<Rightarrow> string) \<Rightarrow> processor \<Rightarrow> bool" where
  "proc_inv H p \<longleftrightarrow> chain_inv H p \<and> count_inv p \<and> queue_inv p \<and> order_inv p"

text \<open>The channel is a first-in first-out queue between the accepted and the received events. An event
  the processor panicked at is in neither.\<close>

definition channel_inv :: "fw_state \<Rightarrow> bool" where
  "channel_inv s \<longleftrightarrow>
     length (fw_channel s) \<le> channel_capacity \<and>
     fw_accepted s = pr_received (fw_proc s) @ panicked_events (fw_proc s) @ fw_channel s \<and>
     (\<forall>bad \<in> set (panicked_events (fw_proc s)). \<not> is_null bad \<and> \<not> is_object bad)"

text \<open>The forwarder runs until one of the three tasks that can end has ended.\<close>

definition stop_inv :: "fw_state \<Rightarrow> bool" where
  "stop_inv s \<longleftrightarrow>
     (fw_running s \<longleftrightarrow> pr_panicked (fw_proc s) = None \<and> fw_listener s \<noteq> Ended \<and> fw_health s \<noteq> Ended)"

definition wal_inv :: "fw_state \<Rightarrow> bool" where
  "wal_inv s \<longleftrightarrow>
     wal_event_count (fw_wal s) =
       of_nat (length (wal_sent (fw_wal s)) + (if fw_sending s = None then 0 else 1)) \<and>
     subseq (wal_sent (fw_wal s)) (fw_accepted s)"

definition fw_inv :: "(string \<Rightarrow> string) \<Rightarrow> fw_state \<Rightarrow> bool" where
  "fw_inv H s \<longleftrightarrow> proc_inv H (fw_proc s) \<and> channel_inv s \<and> wal_inv s \<and> stop_inv s"

section \<open>Lemmas\<close>

lemma chain_all_snoc:
  "chain_all H c es = Some (c', es') \<Longrightarrow> chain_apply H c' e = Some (c'', e', p, h) \<Longrightarrow>
     chain_all H c (es @ [e]) = Some (c'', es' @ [e'])"
  by (induction es arbitrary: c es') (auto split: option.splits)

lemma send_total: "\<exists>out. gelf_send sv e = Some out"
  using to_gelf_fields [of "gf_hostname (sv_gelf sv)" e]
  by (auto simp: gelf_send_def send_def)

subsection \<open>Flushing\<close>

lemma flush_order:
  assumes "order_inv p" and "length (retry_queue (pr_writer p)) \<le> max_retry"
  shows "order_inv (flush_batch sv pg ex p)"
proof -
  obtain w out where wb: "write_batch (sv_print sv) pg ex (pr_writer p) (pr_batch p) = (w, out)"
    by (cases "write_batch (sv_print sv) pg ex (pr_writer p) (pr_batch p)")
  note order = write_batch_order [OF wb assms(2)]
  have eq: "stored (flush_batch sv pg ex p) = stored p @ outcome_rows out"
    "pending (flush_batch sv pg ex p) = retry_queue w"
    "lossless (flush_batch sv pg ex p) \<longleftrightarrow> lossless p \<and> keeps_all out"
    "pr_chained (flush_batch sv pg ex p) = pr_chained p"
    by (simp_all add: flush_batch_def wb stored_def pending_def lossless_def)
  have "subseq (stored p @ outcome_rows out @ retry_queue w) (stored p @ pending p)"
    using order(1) by (simp only: pending_def subseq_append')
  with assms(1) have "subseq (stored p @ outcome_rows out @ retry_queue w) (pr_chained p)"
    unfolding order_inv_def by (blast intro: subseq_order.order_trans)
  then show ?thesis
    using assms(1) order(2) [folded pending_def] by (auto simp: order_inv_def eq)
qed

lemma flush_inv:
  assumes "chain_inv H p" "count_inv p" "order_inv p" "length (retry_queue (pr_writer p)) \<le> max_retry"
  shows "proc_inv H (flush_batch sv pg ex p)"
proof -
  have "queue_inv (flush_batch sv pg ex p)"
    using assms(4) write_batch_bounded [of "pr_writer p" "sv_print sv" pg ex "pr_batch p"]
    by (auto simp: queue_inv_def flush_batch_def batch_limit_def split: prod.splits)
  moreover have "chain_inv H (flush_batch sv pg ex p)" "count_inv (flush_batch sv pg ex p)"
    using assms(1,2) by (auto simp: chain_inv_def count_inv_def panicked_events_def flush_batch_def split: prod.splits)
  ultimately show ?thesis
    using flush_order [OF assms(3,4)] by (simp add: proc_inv_def)
qed

subsection \<open>One step of the processor\<close>

lemma tick_inv: "proc_inv H p \<Longrightarrow> proc_inv H (processor_tick sv pg ex p)"
  using flush_inv [of H p sv pg ex] unfolding processor_tick_def by (simp add: proc_inv_def queue_inv_def)

text \<open>The processor after the event is chained, counted and pushed, before the size check.\<close>

definition absorb :: "processor \<Rightarrow> json \<Rightarrow> hash_chain \<Rightarrow> json \<Rightarrow> gelf_outcome \<Rightarrow> processor" where
  "absorb p event c event' out =
     p\<lparr>pr_udp_count := pr_udp_count p + (if is_wal_event event then 0 else 1),
       pr_chain := c,
       pr_health := update_health (chain_length c) (as_str (jget event' ''event_time'')) (pr_health p),
       pr_received := pr_received p @ [event],
       pr_chained := pr_chained p @ [event'],
       pr_gelf := pr_gelf p @ [out],
       pr_batch := pr_batch p @ [event']\<rparr>"

lemma processor_event_absorb:
  assumes "processor_event sv pg ex p event = Some p'"
  obtains c event' pv h out where
    "chain_apply (sv_hash sv) (pr_chain p) event = Some (c, event', pv, h)"
    "gelf_send sv event' = Some out"
    "p' = (if length (pr_batch p) + 1 \<ge> batch_limit
           then flush_batch sv pg ex (absorb p event c event' out)
           else absorb p event c event' out)"
  using assms
  by (fastforce simp: processor_event_def absorb_def count_udp_def Let_def split: option.splits if_splits)

lemma absorb_inv:
  assumes "proc_inv H p" and app: "chain_apply H (pr_chain p) event = Some (c, event', pv, h)"
    and "pr_panicked p = None"
  shows "chain_inv H (absorb p event c event' out)" and "count_inv (absorb p event c event' out)"
    and "order_inv (absorb p event c event' out)"
proof -
  show "chain_inv H (absorb p event c event' out)"
    using assms by (auto simp: proc_inv_def chain_inv_def absorb_def intro: chain_all_snoc)
  show "count_inv (absorb p event c event' out)"
    using assms chain_apply_Some(4) [OF app] chain_apply_Some(5) [OF app, of "''event_time''"]
    by (simp add: proc_inv_def count_inv_def absorb_def update_health_def panicked_events_def)
  have eq: "stored (absorb p event c event' out) = stored p"
    "pending (absorb p event c event' out) = pending p @ [event']"
    "lossless (absorb p event c event' out) = lossless p"
    "pr_chained (absorb p event c event' out) = pr_chained p @ [event']"
    by (simp_all add: absorb_def stored_def pending_def lossless_def)
  have "order_inv p" using assms(1) by (simp add: proc_inv_def)
  then have "subseq ((stored p @ pending p) @ [event']) (pr_chained p @ [event'])"
    by (intro list_emb_append_mono) (auto simp: order_inv_def)
  with \<open>order_inv p\<close> show "order_inv (absorb p event c event' out)"
    by (simp add: order_inv_def eq)
qed

lemma processor_event_inv:
  assumes "processor_event sv pg ex p event = Some p'" and "proc_inv (sv_hash sv) p"
    and "pr_panicked p = None"
  shows "proc_inv (sv_hash sv) p'"
  using assms(1)
proof (rule processor_event_absorb)
  fix c event' pv h out
  assume app: "chain_apply (sv_hash sv) (pr_chain p) event = Some (c, event', pv, h)"
    and p': "p' = (if length (pr_batch p) + 1 \<ge> batch_limit
           then flush_batch sv pg ex (absorb p event c event' out) else absorb p event c event' out)"
  let ?q = "absorb p event c event' out"
  note inv = absorb_inv [OF assms(2) app assms(3), of out]
  have len: "length (retry_queue (pr_writer ?q)) \<le> max_retry" "pr_batch ?q = pr_batch p @ [event']"
    using assms(2) by (simp_all add: absorb_def proc_inv_def queue_inv_def)
  show ?thesis
  proof (cases "length (pr_batch p) + 1 \<ge> batch_limit")
    case True
    then show ?thesis using p' flush_inv [OF inv len(1)] by simp
  next
    case False
    then show ?thesis using p' inv len by (simp add: proc_inv_def queue_inv_def)
  qed
qed

lemma processor_event_None:
  "processor_event sv pg ex p event = None \<longleftrightarrow> \<not> (is_null event \<or> is_object event)"
proof -
  have "processor_event sv pg ex p event = None \<longleftrightarrow>
      chain_apply (sv_hash sv) (pr_chain p) event = None"
  proof (cases "chain_apply (sv_hash sv) (pr_chain p) event")
    case None
    then show ?thesis by (simp add: processor_event_def count_udp_def Let_def)
  next
    case (Some r)
    obtain out where "gelf_send sv (fst (snd r)) = Some out" using send_total by blast
    with Some show ?thesis by (cases r) (simp add: processor_event_def count_udp_def Let_def)
  qed
  then show ?thesis by (simp add: chain_apply_None)
qed

lemma new_processor_inv: "proc_inv H new_processor"
  by (simp add: proc_inv_def chain_inv_def count_inv_def queue_inv_def order_inv_def new_processor_def
      new_chain_def new_writer_def new_health_def stored_def pending_def batch_limit_def panicked_events_def)

lemma processor_panic_inv: "proc_inv H p \<Longrightarrow> pr_panicked p = None \<Longrightarrow> proc_inv H (processor_panic event p)"
  by (simp add: proc_inv_def chain_inv_def count_inv_def queue_inv_def order_inv_def stored_def pending_def
      lossless_def processor_panic_def count_udp_def panicked_events_def)

lemma processor_panic_simps [simp]:
  "pr_received (processor_panic event p) = pr_received p"
  "pr_chained (processor_panic event p) = pr_chained p"
  "pr_panicked (processor_panic event p) = Some event"
  "stored (processor_panic event p) = stored p"
  "pending (processor_panic event p) = pending p"
  "lossless (processor_panic event p) = lossless p"
  by (simp_all add: processor_panic_def count_udp_def stored_def pending_def lossless_def)

subsection \<open>One step of the system\<close>

inductive_cases fw_stepE: "fw_step sv parse s t"

lemmas fw_inv_defs = fw_inv_def channel_inv_def wal_inv_def stop_inv_def

lemma fw_start_inv: "fw_start csv s \<Longrightarrow> fw_inv H s"
  by (simp add: fw_start_def start_state_def fw_inv_defs new_processor_inv)
    (simp add: new_processor_def new_wal_state_def panicked_events_def)

lemma processor_event_received:
  assumes "processor_event sv pg ex p event = Some p'"
  shows "pr_received p' = pr_received p @ [event]" and "pr_panicked p' = pr_panicked p"
  using assms by (auto elim!: processor_event_absorb simp: absorb_def flush_batch_def split: prod.splits if_splits)

lemma tick_received [simp]:
  "pr_received (processor_tick sv pg ex p) = pr_received p"
  "pr_panicked (processor_tick sv pg ex p) = pr_panicked p"
  by (simp_all add: processor_tick_def flush_batch_def split: prod.splits)

lemma enqueue_inv:
  assumes "fw_inv H s" and "fw_running s" and "length (fw_channel s) < channel_capacity"
  shows "fw_inv H (enqueue event s)"
  using assms by (auto simp: fw_inv_defs enqueue_def panicked_events_def intro: subseq_extend)

lemma fw_step_inv: "fw_step sv parse s t \<Longrightarrow> fw_inv (sv_hash sv) s \<Longrightarrow> fw_inv (sv_hash sv) t"
proof (induction rule: fw_step.induct)
  case (udp_accept s d event)
  then show ?case by (simp add: enqueue_inv)
next
  case (wal_send s event)
  from wal_send show ?case
    by (auto simp: fw_inv_defs enqueue_def panicked_events_def intro: subseq_extend_both)
next
  case (process s event events pool_get execute p)
  have "pr_panicked (fw_proc s) = None" using process by (simp add: fw_inv_defs)
  with process show ?case
    using processor_event_inv [OF process(3)] processor_event_received [OF process(3)]
    by (auto simp: fw_inv_defs panicked_events_def)
next
  case (process_panic s event events pool_get execute)
  then show ?case
    using processor_event_None [of sv pool_get execute "fw_proc s" event]
      processor_panic_inv [of "sv_hash sv" "fw_proc s" event]
    by (auto simp: fw_inv_defs panicked_events_def)
next
  case (tick s pool_get execute)
  then show ?case by (auto simp: fw_inv_defs tick_inv panicked_events_def)
qed (auto simp: fw_inv_defs)

interpretation fw: inductive_invariant "fw_start csv" "fw_step sv parse" "fw_inv (sv_hash sv)"
  for csv sv parse
  by unfold_locales (auto intro: fw_start_inv fw_step_inv)

text \<open>The configured names never change, whatever the refreshes read.\<close>

lemma refresh_keeps_global: "global_fields (refresh_cache pool_get query reg) = global_fields reg"
  by (simp add: refresh_cache_def split: sum.split)

lemma fw_step_global: "fw_step sv parse s t \<Longrightarrow> global_fields (fw_registry t) = global_fields (fw_registry s)"
  by (induction rule: fw_step.induct) (simp_all add: enqueue_def refresh_keeps_global)

interpretation names: inductive_invariant "fw_start csv" "fw_step sv parse"
  "\<lambda>s. global_fields (fw_registry s) = global_fields (new_registry csv)" for csv sv parse
  by unfold_locales (auto simp: fw_start_def start_state_def fw_step_global)

end
