(* ===== verification/Startup.thy ===== *)
theory Startup
  imports Forwarder
begin

text \<open>
  How the process starts and ends (\<open>main\<close> of \<open>forwarder/src/main.rs\<close>, with \<open>BatchWriter::new\<close>, and the
  parts of \<open>listener::run\<close> and \<open>health::run\<close> around their loops).

  Everything outside of the program is in \<open>start_env\<close>: the environment variables, whether the sockets
  can be bound, the parser of socket addresses, the host name, whether the pool can be created for a
  URL, and the answers of the database at start-up. The start-up panics at the first of its steps that
  fails, which ends the process with the status of a panic. Afterwards \<open>main\<close> waits for the first
  of the spawned tasks to end, in whatever way, and returns.
\<close>

section \<open>The environment\<close>

record 'addr start_env =
  se_env :: environment
  se_gelf_bind :: bool
  se_parse_addr :: "string \<Rightarrow> 'addr option"
  se_hostname :: "string option"
  se_create_pool :: "string \<Rightarrow> bool"
  se_pool_get :: pool_answer
  se_execute :: execute_answer
  se_fields :: "unit \<Rightarrow> string + field_row list"

datatype start_panic = InvalidPort | GelfPanic | PoolPanic

datatype task =
    ListenerTask
  | ProcessorTask
  | HealthTask
  | HeartbeatTask
  | PartitionTask
  | RefreshTask
  | WalTask

datatype task_end = TaskReturned | TaskPanicked

datatype exit_status = ExitSuccess | ExitPanic

section \<open>Start-up\<close>

text \<open>\<open>BatchWriter::new\<close>: \<open>None\<close> is the panic of \<open>create_pool\<close>. The partition is ensured once; a failure
  of that is only logged.\<close>

definition batch_writer_new ::
  "(string \<Rightarrow> bool) \<Rightarrow> 'e + 'c \<Rightarrow> ('c \<Rightarrow> string \<Rightarrow> sql_param list \<Rightarrow> 'e + 64 word) \<Rightarrow> string \<Rightarrow>
   (writer \<times> partition_outcome) option" where
  "batch_writer_new create_pool pool_get execute url =
     (if \<not> create_pool url then None
      else
        let writer = new_writer
        in Some (writer, ensure_partition pool_get execute))"

record 'addr started =
  sd_settings :: settings
  sd_gelf :: "'addr gelf_forwarder"
  sd_writer :: writer
  sd_partition :: partition_outcome
  sd_health :: health_data
  sd_wal :: wal_state
  sd_registry :: field_registry
  sd_tasks :: "task list"

definition spawned_tasks :: "bool \<Rightarrow> task list" where
  "spawned_tasks wal =
     [ListenerTask, HealthTask, HeartbeatTask] @ (if wal then [WalTask] else []) @
     [RefreshTask, ProcessorTask, PartitionTask]"

definition start_up :: "'addr start_env \<Rightarrow> start_panic + 'addr started" where
  "start_up se =
     (case load_settings (se_env se) of
        None \<Rightarrow> Inl InvalidPort
      | Some cfg \<Rightarrow>
     (case new_gelf_forwarder (se_gelf_bind se) (se_parse_addr se) (se_hostname se)
             (gelf_host cfg) (gelf_port cfg) of
        None \<Rightarrow> Inl GelfPanic
      | Some gelf \<Rightarrow>
     (case batch_writer_new (se_create_pool se) (se_pool_get se) (se_execute se) (db_url cfg) of
        None \<Rightarrow> Inl PoolPanic
      | Some (w, part) \<Rightarrow>
          (let registry = new_registry (sensitive_fields_csv cfg)
           in Inr \<lparr>sd_settings = cfg, sd_gelf = gelf, sd_writer = w, sd_partition = part,
                   sd_health = new_health, sd_wal = new_wal_state,
                   sd_registry = refresh_cache (se_pool_get se) (se_fields se) registry,
                   sd_tasks = spawned_tasks (wal_enabled cfg)\<rparr>))))"

section \<open>Tasks and the end\<close>

text \<open>The listener's task: a panic if the port cannot be bound, then the loop; \<open>None\<close> is a task that is
  still running at the end of the script.\<close>

definition listener_task ::
  "bool \<Rightarrow> (string \<Rightarrow> json option) \<Rightarrow> (json \<Rightarrow> bool) \<Rightarrow> ('e + string) list \<Rightarrow>
   json list \<times> task_end option" where
  "listener_task bind_ok from_slice open_for rs =
     (if \<not> bind_ok then ([], Some TaskPanicked)
      else
        let (events, exit) = listener_run from_slice open_for rs
        in (events, case exit of Listening \<Rightarrow> None | ChannelClosed \<Rightarrow> Some TaskReturned))"

text \<open>The health task: a panic if the port cannot be bound or the server fails (\<open>serve\<close> is its result,
  \<open>None\<close> while it serves).\<close>

definition health_task :: "bool \<Rightarrow> ('e + unit) option \<Rightarrow> task_end option" where
  "health_task bind_ok serve =
     (if \<not> bind_ok then Some TaskPanicked
      else
        case serve of
          None \<Rightarrow> None
        | Some (Inl e) \<Rightarrow> Some TaskPanicked
        | Some (Inr u) \<Rightarrow> Some TaskReturned)"

text \<open>\<open>main\<close>: the tasks end in the order of the list (only spawned ones are waited for); \<open>None\<close> while all
  of them run.\<close>

definition main_run :: "'addr start_env \<Rightarrow> (task \<times> task_end) list \<Rightarrow> exit_status option" where
  "main_run se ends =
     (case start_up se of
        Inl e \<Rightarrow> Some ExitPanic
      | Inr st \<Rightarrow>
          (case filter (\<lambda>te. fst te \<in> set (sd_tasks st)) ends of
             [] \<Rightarrow> None
           | first # _ \<Rightarrow> Some ExitSuccess))"

section \<open>Properties\<close>

lemma new_gelf_None:
  "new_gelf_forwarder bind_ok parse_addr hn host port = None \<longleftrightarrow>
     \<not> bind_ok \<or> parse_addr (host @ '':'' @ show_nat (unat port)) = None"
  by (simp add: new_gelf_forwarder_def split: option.split)

lemma batch_writer_new_eq:
  "batch_writer_new create_pool pg ex url =
     (if create_pool url then Some (new_writer, ensure_partition pg ex) else None)"
  by (simp add: batch_writer_new_def)


text \<open>Once started, \<open>main\<close> waits for the first task to end and then ends the process with success,
  whether the task returned or panicked: a port in use, or the processor's panic at a bad event, is
  reported as a success. Only a failure of the start-up itself is reported as one.\<close>

theorem main_reports_success:
  "(main_run se ends = Some ExitPanic \<longleftrightarrow> isl (start_up se)) \<and>
   (case start_up se of
      Inl e \<Rightarrow> True
    | Inr st \<Rightarrow>
        main_run se [] = None \<and>
        main_run se ((ProcessorTask, TaskPanicked) # ends) = Some ExitSuccess \<and>
        (case listener_task False from_slice open_for rs of
           (events, Some how) \<Rightarrow> how = TaskPanicked \<and> main_run se ((ListenerTask, how) # ends) = Some ExitSuccess
         | (events, None) \<Rightarrow> False) \<and>
        (case health_task False serve of
           Some how \<Rightarrow> how = TaskPanicked \<and> main_run se ((HealthTask, how) # ends) = Some ExitSuccess
         | None \<Rightarrow> False))"
proof (cases "start_up se")
  case (Inl e)
  then show ?thesis by (simp add: main_run_def)
next
  case (Inr st)
  have "sd_tasks st = spawned_tasks (wal_enabled (sd_settings st))"
    using Inr by (auto simp: start_up_def Let_def split: option.splits)
  then show ?thesis
    by (auto simp: main_run_def Inr spawned_tasks_def listener_task_def health_task_def split: list.splits)
qed

end
