(* ===== verification/Partitions.thy ===== *)
theory Partitions
  imports Writer
begin

text \<open>
  The partitions of \<open>vibe_audit.events\<close>: the PL/pgSQL function \<open>ensure_partition\<close> of
  \<open>ext/vibe_audit--1.1.sql\<close>, which the writer calls at start-up and once a day, and what the partitions
  mean for the rows of a batch. The state is the list of partitions with their ranges; \<open>pg_class\<close> is
  searched by name. A date is year, month and day; ranges are half open.

  Not modelled: a \<open>CREATE TABLE\<close> that fails (the error leaves the state as it was and is logged by the
  caller), and the time zone. The bounds are dates that the server reads in the time zone of the
  session that creates the partition; here all sessions have one time zone, and \<open>to_date\<close> gives the day
  of a time in it.
\<close>

section \<open>Dates\<close>

datatype date = Date (year: nat) (month: nat) (day: nat)

instantiation date :: linorder
begin

definition less_date :: "date \<Rightarrow> date \<Rightarrow> bool" where
  "less_date a b \<longleftrightarrow>
     year a < year b \<or>
     year a = year b \<and> (month a < month b \<or> month a = month b \<and> day a < day b)"

definition less_eq_date :: "date \<Rightarrow> date \<Rightarrow> bool" where
  "less_eq_date (a :: date) b \<longleftrightarrow> a < b \<or> a = b"

instance
  by standard (auto simp: less_date_def less_eq_date_def intro: date.expand)

end

lemmas date_order = less_date_def less_eq_date_def

text \<open>The dates the names of partitions are made for: four digits for the year, two for the month.\<close>

definition valid_date :: "date \<Rightarrow> bool" where
  "valid_date d \<longleftrightarrow> year d < 10000 \<and> month d \<in> {1..12} \<and> day d \<in> {1..31}"

definition same_month :: "date \<Rightarrow> date \<Rightarrow> bool" where
  "same_month a b \<longleftrightarrow> year a = year b \<and> month a = month b"

section \<open>Model\<close>

text \<open>\<open>date_trunc('month', d)\<close>, and one month later.\<close>

definition month_start :: "date \<Rightarrow> date" where
  "month_start d = Date (year d) (month d) 1"

definition next_month :: "date \<Rightarrow> date" where
  "next_month d = (if month d = 12 then Date (year d + 1) 1 (day d) else Date (year d) (month d + 1) (day d))"

text \<open>\<open>to_char(d, 'YYYY_MM')\<close>\<close>

definition digits2 :: "nat \<Rightarrow> string" where
  "digits2 n = [digit_char (n div 10 mod 10), digit_char (n mod 10)]"

definition year_month :: "date \<Rightarrow> string" where
  "year_month d = digits2 (year d div 100) @ digits2 (year d mod 100) @ ''_'' @ digits2 (month d)"

record partition =
  pt_name :: string
  pt_from :: date
  pt_to :: date

definition ensure_partition_sql :: "date \<Rightarrow> partition list \<Rightarrow> partition list \<times> string" where
  "ensure_partition_sql target_date ps =
     (let start_date = month_start target_date;
          end_date = next_month start_date;
          partition_name = ''events_'' @ year_month start_date
      in if partition_name \<notin> pt_name ` set ps
         then (ps @ [\<lparr>pt_name = partition_name, pt_from = start_date, pt_to = end_date\<rparr>], partition_name)
         else (ps, partition_name))"

text \<open>The partitions after calls for these dates, and the one that takes a row.\<close>

definition ensure_all :: "date list \<Rightarrow> partition list \<Rightarrow> partition list" where
  "ensure_all ts ps = fold (\<lambda>t ps. fst (ensure_partition_sql t ps)) ts ps"

definition contains_date :: "partition \<Rightarrow> date \<Rightarrow> bool" where
  "contains_date p d \<longleftrightarrow> pt_from p \<le> d \<and> d < pt_to p"

section \<open>Lemmas\<close>

definition partition_of :: "date \<Rightarrow> partition" where
  "partition_of d =
     \<lparr>pt_name = ''events_'' @ year_month d, pt_from = month_start d, pt_to = next_month (month_start d)\<rparr>"

lemma year_month_start [simp]: "year_month (month_start d) = year_month d"
  by (simp add: year_month_def month_start_def)

lemma digit_char_eq: "a < 10 \<Longrightarrow> b < 10 \<Longrightarrow> digit_char a = digit_char b \<longleftrightarrow> a = b"
proof -
  assume "a < 10" "b < 10"
  then have "of_char (digit_char a) = (48 + a :: nat)" "of_char (digit_char b) = (48 + b :: nat)"
    by (simp_all add: digit_char_def)
  then show ?thesis by (metis add_left_cancel)
qed

lemma digits2_eq: "a < 100 \<Longrightarrow> b < 100 \<Longrightarrow> digits2 a = digits2 b \<longleftrightarrow> a = b"
  by (auto simp: digits2_def digit_char_eq) (metis div_mult_mod_eq mod_less div_less_iff_less_mult
      zero_less_numeral mult.commute numeral_times_numeral)

lemma length_digits2 [simp]: "length (digits2 n) = 2"
  by (simp add: digits2_def)

text \<open>The name of a partition determines its month.\<close>

lemma year_month_eq:
  assumes "valid_date a" and "valid_date b"
  shows "year_month a = year_month b \<longleftrightarrow> same_month a b"
proof -
  have "year a div 100 < 100" "year b div 100 < 100" "month a < 100" "month b < 100"
    using assms by (auto simp: valid_date_def)
  then have "year_month a = year_month b \<longleftrightarrow>
      year a div 100 = year b div 100 \<and> year a mod 100 = year b mod 100 \<and> month a = month b"
    by (simp add: year_month_def digits2_eq append_eq_append_conv)
  also have "\<dots> \<longleftrightarrow> same_month a b"
    unfolding same_month_def by (metis div_mult_mod_eq)
  finally show ?thesis .
qed

text \<open>A month's range holds exactly the dates of the month.\<close>

lemma contains_partition_of:
  assumes "valid_date d"
  shows "contains_date (partition_of t) d \<longleftrightarrow> same_month t d"
proof -
  obtain y m k where d: "d = Date y m k" by (cases d)
  obtain y' m' k' where t: "t = Date y' m' k'" by (cases t)
  have m: "1 \<le> m" "m \<le> 12" "1 \<le> k" using assms by (simp_all add: valid_date_def d)
  have lower: "month_start t \<le> d \<longleftrightarrow> y' < y \<or> y' = y \<and> m' \<le> m"
    using m by (auto simp: month_start_def date_order d t)
  show ?thesis
  proof (cases "m' = 12")
    case True
    then have "d < next_month (month_start t) \<longleftrightarrow> y < Suc y'"
      using m by (auto simp: month_start_def next_month_def date_order d t)
    with True lower m show ?thesis
      by (auto simp: contains_date_def partition_of_def same_month_def d t)
  next
    case False
    then have "d < next_month (month_start t) \<longleftrightarrow> y < y' \<or> y = y' \<and> m < Suc m'"
      using m by (auto simp: month_start_def next_month_def date_order d t)
    with lower show ?thesis
      by (auto simp: contains_date_def partition_of_def same_month_def d t)
  qed
qed

lemma partition_of_cong: "same_month a b \<Longrightarrow> partition_of a = partition_of b"
  by (simp add: partition_of_def same_month_def year_month_def month_start_def)

lemma ensure_partition_sql_eq:
  "ensure_partition_sql t ps =
     (if pt_name (partition_of t) \<in> pt_name ` set ps then ps else ps @ [partition_of t],
      pt_name (partition_of t))"
  by (simp add: ensure_partition_sql_def partition_of_def Let_def)

lemma ensure_all_partitions:
  assumes "\<forall>t \<in> set (us @ ts). valid_date t"
    and "set ps = partition_of ` set us" and "distinct (map pt_name ps)"
  shows "set (ensure_all ts ps) = partition_of ` set (us @ ts) \<and> distinct (map pt_name (ensure_all ts ps))"
  using assms
proof (induction ts arbitrary: us ps)
  case Nil
  then show ?case by (simp add: ensure_all_def)
next
  case (Cons t ts)
  let ?qs = "fst (ensure_partition_sql t ps)"
  have name: "pt_name (partition_of a) = pt_name (partition_of b) \<longleftrightarrow> year_month a = year_month b" for a b
    by (simp add: partition_of_def)
  have "pt_name (partition_of t) \<in> pt_name ` set ps \<longleftrightarrow>
      (\<exists>u \<in> set us. pt_name (partition_of u) = pt_name (partition_of t))"
    unfolding Cons.prems(2) image_image by (auto simp del: partition.simps simp: image_iff eq_commute)
  also have "\<dots> \<longleftrightarrow> (\<exists>u \<in> set us. year_month u = year_month t)" by (simp only: name)
  also have "\<dots> \<longleftrightarrow> (\<exists>u \<in> set us. same_month u t)"
    using Cons.prems(1) year_month_eq by auto
  finally have known: "pt_name (partition_of t) \<in> pt_name ` set ps \<longleftrightarrow> (\<exists>u \<in> set us. same_month u t)" .
  have "set ?qs = partition_of ` set (us @ [t])"
  proof (cases "\<exists>u \<in> set us. same_month u t")
    case True
    then have "partition_of t \<in> partition_of ` set us"
      using partition_of_cong by (metis image_eqI)
    with True show ?thesis using known Cons.prems(2) by (auto simp: ensure_partition_sql_eq)
  next
    case False
    then show ?thesis using known Cons.prems(2) by (auto simp: ensure_partition_sql_eq)
  qed
  moreover have "distinct (map pt_name ?qs)"
    using Cons.prems(3) by (auto simp: ensure_partition_sql_eq)
  ultimately show ?case
    using Cons.IH [of "us @ [t]" ?qs] Cons.prems(1) by (simp add: ensure_all_def)
qed

lemma ensure_all_contains:
  assumes "\<forall>t \<in> set ts. valid_date t" and "valid_date d"
  shows "(\<exists>p \<in> set (ensure_all ts []). contains_date p d) \<longleftrightarrow> (\<exists>t \<in> set ts. same_month t d)"
  using ensure_all_partitions [of "[]" ts "[]"] assms by (auto simp: contains_partition_of)

section \<open>Rows\<close>

text \<open>The time an event is stored with, as a date: \<open>to_date\<close> is the cast of a text to a timestamp, in
  UTC, \<open>None\<close> where the cast fails. A row has a place when its date is in a partition.\<close>

definition has_place :: "(string \<Rightarrow> date option) \<Rightarrow> partition list \<Rightarrow> event_columns \<Rightarrow> bool" where
  "has_place to_date ps c \<longleftrightarrow>
     (case to_date (col_event_time c) of
        None \<Rightarrow> False
      | Some d \<Rightarrow> (\<exists>p \<in> set ps. contains_date p d))"

lemma columns_of_no_time:
  "as_str (jget e ''event_time'') = None \<Longrightarrow> col_event_time (columns_of pj e) = ''1970-01-01T00:00:00Z''"
  by (simp add: columns_of_def str_val_def unwrap_or_else_def)

section \<open>Properties\<close>

text \<open>C28: Whatever dates \<open>ensure_partition\<close> is called for, in any order and repeatedly, the partitions
  have different names and disjoint ranges, and a date lies in one of them exactly when a call was
  made for a date of its month. A repeated call creates nothing and returns the same name.\<close>

theorem partitions_tile_months:
  assumes "\<forall>t \<in> set ts. valid_date t" and "valid_date d"
  shows "distinct (map pt_name (ensure_all ts [])) \<and>
    ((\<exists>p. p \<in> set (ensure_all ts []) \<and> contains_date p d) \<longleftrightarrow> (\<exists>t. t \<in> set ts \<and> same_month t d)) \<and>
    length (filter (\<lambda>p. contains_date p d) (ensure_all ts [])) \<le> 1 \<and>
    ensure_partition_sql d (ensure_all (ts @ [d]) []) =
      (ensure_all (ts @ [d]) [], ''events_'' @ year_month d)"
proof -
  have parts: "set (ensure_all ts []) = partition_of ` set ts" "distinct (map pt_name (ensure_all ts []))"
    using ensure_all_partitions [of "[]" ts "[]"] assms(1) by simp_all
  have "p = partition_of d" if "p \<in> set (ensure_all ts [])" "contains_date p d" for p
    using that parts(1) contains_partition_of [OF assms(2)] partition_of_cong by auto
  then have "set (filter (\<lambda>p. contains_date p d) (ensure_all ts [])) \<subseteq> {partition_of d}" by auto
  moreover have "distinct (filter (\<lambda>p. contains_date p d) (ensure_all ts []))"
    using parts(2) by (simp add: distinct_map)
  ultimately have "length (filter (\<lambda>p. contains_date p d) (ensure_all ts [])) \<le> 1"
    using card_mono [of "{partition_of d}" "set (filter (\<lambda>p. contains_date p d) (ensure_all ts []))"]
      distinct_card [of "filter (\<lambda>p. contains_date p d) (ensure_all ts [])"] by simp
  moreover have "(\<exists>p. p \<in> set (ensure_all ts []) \<and> contains_date p d) \<longleftrightarrow> (\<exists>t. t \<in> set ts \<and> same_month t d)"
    using ensure_all_contains [OF assms] by blast
  moreover have "partition_of d \<in> set (ensure_all (ts @ [d]) [])"
    using ensure_all_partitions [of "[]" "ts @ [d]" "[]"] assms by simp
  then have "pt_name (partition_of d) \<in> pt_name ` set (ensure_all (ts @ [d]) [])" by (rule imageI)
  then have "ensure_partition_sql d (ensure_all (ts @ [d]) []) =
      (ensure_all (ts @ [d]) [], ''events_'' @ year_month d)"
    unfolding ensure_partition_sql_eq by (simp only: if_True) (simp add: partition_of_def)
  ultimately show ?thesis using parts(2) by blast
qed

lemma digit_chars:
  "digit_char 0 = CHR ''0''" "digit_char 1 = CHR ''1''" "digit_char (Suc 0) = CHR ''1''"
  "digit_char 2 = CHR ''2''" "digit_char 6 = CHR ''6''"
  by (rule iffD1 [OF of_char_eq_iff [where ?'a = nat]], simp add: digit_char_def)+

theorem partitions_tile_months_witness:
  "(\<exists>p. p \<in> set (ensure_all [Date 2026 1 31, Date 2026 12 1] []) \<and> contains_date p (Date 2026 12 31)) \<and>
   snd (ensure_partition_sql (Date 2026 12 31) (ensure_all [Date 2026 1 31, Date 2026 12 1, Date 2026 12 31] [])) =
     ''events_2026_12''"
proof -
  have "year_month (Date 2026 12 31) = ''2026_12''"
    by (simp add: year_month_def digits2_def digit_chars)
  moreover have "\<exists>t. t \<in> set [Date 2026 1 31, Date 2026 12 1] \<and> same_month t (Date 2026 12 31)"
    by (rule exI [of _ "Date 2026 12 1"]) (simp add: same_month_def)
  moreover have "\<forall>t \<in> set [Date 2026 1 31, Date 2026 12 1]. valid_date t" "valid_date (Date 2026 12 31)"
    by (simp_all add: valid_date_def)
  ultimately show ?thesis
    using partitions_tile_months [of "[Date 2026 1 31, Date 2026 12 1]" "Date 2026 12 31"]
    by (simp only: append.simps snd_conv)
qed

text \<open>C37: One event without a time blocks the writer. It is given the time 1970-01-01, for which no
  partition is created by calls for later dates. While it waits in the queue no call stores anything
  and the events behind it pile up, for as long as every call gets a connection, the database refuses
  each statement with a row that has no partition, and the queue has room for all of them (10,000). A
  call that gets no connection, or an overflow of the queue, ends this by losing events.\<close>

theorem event_without_time_blocks:
  assumes "to_date ''1970-01-01T00:00:00Z'' = Some (Date 1970 1 1)"
    and "\<forall>t \<in> set ts. valid_date t \<and> 1970 < year t"
    and "\<forall>call \<in> set calls. \<exists>c ex es. call = (Inr c, ex, es) \<and>
      (\<forall>evs. (\<exists>e \<in> set evs. \<not> has_place to_date (ensure_all ts []) (columns_of pj e)) \<longrightarrow>
         (\<exists>err. ex c (stmt_query (build_insert pj evs)) (stmt_params (build_insert pj evs)) = Inl err))"
    and "bad \<in> set (retry_queue w)" and "as_str (jget bad ''event_time'') = None"
    and "length (retry_queue w) + length (concat (map (snd \<circ> snd) calls)) \<le> max_retry"
  shows "retry_queue (fst (write_batches pj w calls)) = retry_queue w @ concat (map (snd \<circ> snd) calls) \<and>
    (\<forall>out \<in> set (snd (write_batches pj w calls)). outcome_rows out = [])"
proof -
  have "\<not> (\<exists>p \<in> set (ensure_all ts []). contains_date p (Date 1970 1 1))"
    using ensure_all_contains [of ts "Date 1970 1 1"] assms(2) by (auto simp: valid_date_def same_month_def)
  then have "\<not> has_place to_date (ensure_all ts []) (columns_of pj bad)"
    by (simp add: has_place_def columns_of_no_time [OF assms(5)] assms(1))
  then have "\<forall>call \<in> set calls. \<exists>c ex es. call = (Inr c, ex, es) \<and>
      (\<forall>evs. bad \<in> set evs \<longrightarrow> (\<exists>err. ex c (stmt_query (build_insert pj evs))
         (stmt_params (build_insert pj evs)) = Inl err))"
    using assms(3) by metis
  then show ?thesis by (rule refused_blocks [OF _ assms(4,6)])
qed

text \<open>A database for the example: it has a place for every time but the default one.\<close>

definition sample_to_date :: "string \<Rightarrow> date option" where
  "sample_to_date s = Some (if s = ''1970-01-01T00:00:00Z'' then Date 1970 1 1 else Date 2026 1 1)"

definition sample_execute :: "unit \<Rightarrow> string \<Rightarrow> sql_param list \<Rightarrow> unit + 64 word" where
  "sample_execute c q ps = (if PText ''1970-01-01T00:00:00Z'' \<in> set ps then Inl () else Inr 0)"

lemma sample_execute_refuses:
  assumes "\<exists>e \<in> set evs. \<not> has_place sample_to_date (ensure_all [Date 2026 1 1] []) (columns_of pj e)"
  shows "\<exists>err. sample_execute c (stmt_query (build_insert pj evs)) (stmt_params (build_insert pj evs)) = Inl err"
proof -
  obtain e where e: "e \<in> set evs" "\<not> has_place sample_to_date (ensure_all [Date 2026 1 1] []) (columns_of pj e)"
    using assms by blast
  have "\<exists>p \<in> set (ensure_all [Date 2026 1 1] []). contains_date p (Date 2026 1 1)"
    using ensure_all_contains [of "[Date 2026 1 1]" "Date 2026 1 1"] by (simp add: valid_date_def same_month_def)
  note place = this
  have "col_event_time (columns_of pj e) = ''1970-01-01T00:00:00Z''"
  proof (rule ccontr)
    assume "col_event_time (columns_of pj e) \<noteq> ''1970-01-01T00:00:00Z''"
    then have "sample_to_date (col_event_time (columns_of pj e)) = Some (Date 2026 1 1)"
      by (simp only: sample_to_date_def if_False)
    then have "has_place sample_to_date (ensure_all [Date 2026 1 1] []) (columns_of pj e)"
      unfolding has_place_def using place by simp
    with e(2) show False by contradiction
  qed
  then have "PText ''1970-01-01T00:00:00Z'' \<in> set (params_of (columns_of pj e))" by (simp add: params_of_def)
  with e(1) have "PText ''1970-01-01T00:00:00Z'' \<in> set (stmt_params (build_insert pj evs))"
    by (auto simp: build_insert_params)
  then show ?thesis by (simp add: sample_execute_def)
qed

theorem event_without_time_blocks_witness:
  "retry_queue (fst (write_batches (\<lambda>_. []) \<lparr>retry_queue = [JObject []]\<rparr>
     [(Inr (), sample_execute, [JNull]), (Inr (), sample_execute, [JNull])])) = [JObject [], JNull, JNull]"
proof -
  let ?calls = "[(Inr (), sample_execute, [JNull]), (Inr (), sample_execute, [JNull])] :: (unit, unit) write_call list"
  have "\<forall>call \<in> set ?calls. \<exists>c ex es. call = (Inr c, ex, es) \<and>
      (\<forall>evs. (\<exists>e \<in> set evs. \<not> has_place sample_to_date (ensure_all [Date 2026 1 1] []) (columns_of (\<lambda>_. []) e)) \<longrightarrow>
         (\<exists>err. ex c (stmt_query (build_insert (\<lambda>_. []) evs)) (stmt_params (build_insert (\<lambda>_. []) evs)) = Inl err))"
    using sample_execute_refuses by simp
  then show ?thesis
    using event_without_time_blocks [of sample_to_date "[Date 2026 1 1]" ?calls "\<lambda>_. []" "JObject []"
      "\<lparr>retry_queue = [JObject []]\<rparr>"]
    by (simp add: valid_date_def jget_def max_retry_def sample_to_date_def)
qed

end
