(* ===== verification/SqlTypes.thy ===== *)
theory SqlTypes
  imports Writer
begin

text \<open>
  The types of the \<open>INSERT\<close> of \<open>writer.rs\<close>: the columns of \<open>vibe_audit.events\<close>
  (\<open>ext/vibe_audit--1.1.sql\<close>), the casts the statement writes after its placeholders, and the Rust
  types of the parameters bound to them.

  The database gives a placeholder the type of its cast, or else of its column (\<open>placeholder_types\<close>,
  a specification of the database, not code of the writer; here the two types agree wherever there is
  a cast). Whether a parameter can be sent as a type is decided by the driver: the parameter
  \<open>accepts\<close>. What is assumed of it is what
  the driver documents for \<open>String\<close>, \<open>bool\<close>, \<open>i32\<close> and their \<open>Option\<close>s: a \<open>String\<close> is sent as a text
  type only, a \<open>bool\<close> as \<open>BOOL\<close>, an \<open>i32\<close> as \<open>INT4\<close>.
\<close>

section \<open>Model\<close>

datatype pg_type = PgText | PgTimestamptz | PgBool | PgInet | PgInt4 | PgJsonb

text \<open>The columns the statement names, in its order, with the types of the table.\<close>

definition events_columns :: "(string \<times> pg_type) list" where
  "events_columns =
     [(''event_type'', PgText), (''event_time'', PgTimestamptz), (''success'', PgBool),
      (''session_user'', PgText), (''client_addr'', PgInet), (''client_port'', PgInt4),
      (''database'', PgText), (''pid'', PgInt4), (''application'', PgText),
      (''command_tag'', PgText), (''object_type'', PgText), (''object_name'', PgText),
      (''schema_name'', PgText), (''query_text'', PgText), (''sqlstate'', PgText),
      (''detail'', PgJsonb), (''prev_hash'', PgText), (''event_hash'', PgText)]"

text \<open>The casts of the placeholders of a row.\<close>

definition placeholder_casts :: "string list" where
  "placeholder_casts =
     [[], ''::timestamptz'', [], [], ''::inet'', [], [], [], [], [], [], [], [], [], [], ''::jsonb'', [], []]"

definition cast_type :: "string \<Rightarrow> pg_type option" where
  "cast_type c =
     (if c = ''::timestamptz'' then Some PgTimestamptz
      else if c = ''::inet'' then Some PgInet
      else if c = ''::jsonb'' then Some PgJsonb
      else None)"

text \<open>What the server makes of both; specification, not code of the writer.\<close>

definition placeholder_types :: "pg_type list" where
  "placeholder_types =
     map2 (\<lambda>c (name, t). case cast_type c of Some t' \<Rightarrow> t' | None \<Rightarrow> t) placeholder_casts events_columns"

section \<open>Specification\<close>

text \<open>What the driver documents of the parameter types of this program.\<close>

definition documented_accepts :: "(sql_param \<Rightarrow> pg_type \<Rightarrow> bool) \<Rightarrow> bool" where
  "documented_accepts accepts \<longleftrightarrow>
     (\<forall>s t. accepts (PText s) t = (t = PgText)) \<and>
     (\<forall>x t. accepts (PTextOpt x) t = (t = PgText)) \<and>
     (\<forall>b t. accepts (PBool b) t = (t = PgBool)) \<and>
     (\<forall>n t. accepts (PInt4Opt n) t = (t = PgInt4))"

text \<open>A list of parameters fits the rows of the statement.\<close>

definition well_typed :: "(sql_param \<Rightarrow> pg_type \<Rightarrow> bool) \<Rightarrow> sql_param list \<Rightarrow> bool" where
  "well_typed accepts ps =
     list_all (\<lambda>k. accepts (ps ! k) (placeholder_types ! (k mod 18))) [0..<length ps]"

section \<open>Lemmas\<close>

text \<open>The text of the statement is the one these lists describe.\<close>

lemma insert_header_columns:
  "insert_header =
     ''INSERT INTO vibe_audit.events ('' @ comma_join (map fst events_columns) @ '') VALUES ''"
  by code_simp

lemma row_text_casts:
  "row_text i =
     ''('' @ comma_join (map2 (\<lambda>j c. dollar (i + of_nat j) @ c) [0..<18] placeholder_casts) @ '')''"
  by (simp add: row_text_def placeholder_casts_def upt_18)

lemma placeholder_types_eq:
  "placeholder_types =
     [PgText, PgTimestamptz, PgBool, PgText, PgInet, PgInt4, PgText, PgInt4, PgText, PgText, PgText, PgText,
      PgText, PgText, PgText, PgJsonb, PgText, PgText]"
  by code_simp

lemma params_accepted:
  assumes "documented_accepts accepts" and "j < 18"
  shows "accepts (params_of c ! j) (placeholder_types ! j) \<longleftrightarrow> j \<notin> {1, 4, 15}"
proof -
  have "\<forall>j \<in> set [0..<18]. accepts (params_of c ! j) (placeholder_types ! j) \<longleftrightarrow> j \<notin> {1, 4, 15}"
    using assms(1) unfolding upt_18 by (simp add: documented_accepts_def params_of_def placeholder_types_eq)
  then show ?thesis using assms(2) by simp
qed

lemma build_insert_ill_typed:
  assumes "documented_accepts accepts" and "es \<noteq> []"
  shows "\<not> well_typed accepts (stmt_params (build_insert pj es))"
proof -
  let ?ps = "stmt_params (build_insert pj es)"
  have len: "1 < length ?ps" using assms(2) by (cases es) (simp_all add: length_build_insert_params)
  have "?ps ! 1 = params_of (columns_of pj (es ! 0)) ! 1"
    using nth_concat_params [of 0 es 1 pj] assms(2) by (simp add: build_insert_params)
  then have "\<not> accepts (?ps ! 1) (placeholder_types ! (1 mod 18))"
    using params_accepted [OF assms(1), of 1 "columns_of pj (es ! 0)"] by simp
  with len show ?thesis unfolding well_typed_def list_all_iff by (auto intro!: bexI [of _ 1])
qed

section \<open>Properties\<close>

text \<open>A driver as documented, for the examples.\<close>

fun sample_accepts :: "sql_param \<Rightarrow> pg_type \<Rightarrow> bool" where
  "sample_accepts (PText s) t = (t = PgText)"
| "sample_accepts (PTextOpt s) t = (t = PgText)"
| "sample_accepts (PBool b) t = (t = PgBool)"
| "sample_accepts (PInt4Opt n) t = (t = PgInt4)"

lemma sample_accepts_documented: "documented_accepts sample_accepts"
  by (simp add: documented_accepts_def)

text \<open>C35: With a driver that refuses a statement whose parameters do not have the types of their
  placeholders, no call of \<open>write_batch\<close> ever stores an event, whatever the events, the queue and the
  state of the connection are.\<close>

theorem typed_driver_stores_nothing:
  assumes "documented_accepts accepts"
    and "\<forall>call \<in> set calls. \<forall>c q ps. \<not> well_typed accepts ps \<longrightarrow> (\<exists>err. fst (snd call) c q ps = Inl err)"
  shows "\<forall>out \<in> set (snd (write_batches pj w calls)). outcome_rows out = []"
  using assms(2)
proof (induction calls arbitrary: w)
  case Nil
  then show ?case by simp
next
  case (Cons call calls)
  obtain pg ex es where call: "call = (pg, ex, es)" by (cases call)
  have "outcome_rows (snd (write_batch pj pg ex w es)) = []"
  proof (cases "es = []")
    case True
    then show ?thesis by (simp add: write_batch_def)
  next
    case False
    then have "\<not> well_typed accepts (stmt_params (build_insert pj (retry_queue w @ es)))"
      by (intro build_insert_ill_typed [OF assms(1)]) simp
    then have "\<exists>err. ex c (stmt_query (build_insert pj (retry_queue w @ es)))
        (stmt_params (build_insert pj (retry_queue w @ es))) = Inl err" for c
      using Cons.prems by (simp add: call)
    then show ?thesis
      using False write_batch_failed [of es ex _ pj w] by (cases pg) (auto simp: write_batch_def)
  qed
  with Cons show ?case by (simp add: call write_batches_Cons)
qed

theorem typed_driver_stores_nothing_witness:
  "\<not> (\<exists>out. out \<in> set (snd (write_batches (\<lambda>_. []) new_writer
     [(Inr (), \<lambda>_ _ ps. if well_typed sample_accepts ps then Inr 1 else Inl (), [JNull])])) \<and> outcome_rows out \<noteq> [])"
proof -
  let ?calls = "[(Inr (), \<lambda>_ _ ps. if well_typed sample_accepts ps then Inr 1 else Inl (), [JNull])]
    :: (unit, unit) write_call list"
  have "\<forall>out \<in> set (snd (write_batches (\<lambda>_. []) new_writer ?calls)). outcome_rows out = []"
    by (rule typed_driver_stores_nothing [OF sample_accepts_documented]) simp
  then show ?thesis by blast
qed

end
