(* ===== verification/UnitTests.thy ===== *)
theory UnitTests
  imports HashChain WalCapture
begin

text \<open>
  The unit tests of the repository (\<open>mod tests\<close> of \<open>hashchain.rs\<close>, \<open>sensitive.rs\<close> and
  \<open>walcapture.rs\<close>), translated to closed computations on the model: a test is \<open>True\<close> when all its
  assertions hold and nothing in it panics. They bind the model to the behaviour its authors wrote
  down. \<open>H\<close> is the hash function and \<open>from_str\<close> the JSON parser.
\<close>

abbreviation dquote_char :: char where "dquote_char \<equiv> CHR 0x22"

text \<open>A text between double quotes.\<close>

definition in_dquotes :: "string \<Rightarrow> string" where
  "in_dquotes s = dquote_char # s @ [dquote_char]"

section \<open>Hash chain\<close>

definition test_chain_produces_hashes :: "(string \<Rightarrow> string) \<Rightarrow> bool" where
  "test_chain_produces_hashes H =
     (let event = jobj
        [(''event_type'', JString ''AUTH_SUCCESS''),
         (''event_time'', JString ''2026-01-01T00:00:00Z''),
         (''session_user'', JString ''admin''),
         (''database'', JString ''vibesql''),
         (''command_tag'', JString ''authentication''),
         (''query_text'', JNull)]
      in case chain_apply H new_chain event of
           None \<Rightarrow> False
         | Some (chain, event', _) \<Rightarrow>
             as_str (jget event' ''prev_hash'') \<noteq> None \<and>
             as_str (jget event' ''event_hash'') \<noteq> None \<and>
             as_str (jget event' ''prev_hash'') = Some [] \<and>
             chain_length chain = 1)"

definition test_event :: "string \<Rightarrow> string \<Rightarrow> json" where
  "test_event event_type event_time = jobj
     [(''event_type'', JString event_type), (''event_time'', JString event_time),
      (''session_user'', JString ''u''), (''database'', JString ''d''),
      (''command_tag'', JString ''c''), (''query_text'', JString [])]"

definition test_chain_links :: "(string \<Rightarrow> string) \<Rightarrow> bool" where
  "test_chain_links H =
     (case chain_apply H new_chain (test_event ''A'' ''t1'') of
        None \<Rightarrow> False
      | Some (chain1, e1, _) \<Rightarrow>
          (case chain_apply H chain1 (test_event ''B'' ''t2'') of
             None \<Rightarrow> False
           | Some (chain2, e2, _) \<Rightarrow>
               as_str (jget e1 ''event_hash'') \<noteq> None \<and>
               as_str (jget e2 ''prev_hash'') = as_str (jget e1 ''event_hash'') \<and>
               chain_length chain2 = 2))"

section \<open>Sensitive fields\<close>

definition test_diff_fields_detects_changes :: bool where
  "test_diff_fields_detects_changes =
     (let old = jobj [(''name'', JString ''Alice''), (''email'', JString ''a@b.com''), (''role'', JString ''user'')];
          new = jobj [(''name'', JString ''Alice''), (''email'', JString ''a@c.com''), (''role'', JString ''admin'')];
          changed = diff_fields old new
      in ''email'' \<in> set changed \<and> ''role'' \<in> set changed \<and> ''name'' \<notin> set changed)"

definition test_diff_fields_detects_added :: bool where
  "test_diff_fields_detects_added =
     (let old = jobj [(''name'', JString ''Alice'')];
          new = jobj [(''name'', JString ''Alice''), (''card_number'', JString ''4111111111111111'')];
          changed = diff_fields old new
      in ''card_number'' \<in> set changed \<and> ''name'' \<notin> set changed)"

definition test_diff_fields_detects_removed :: bool where
  "test_diff_fields_detects_removed =
     (let old = jobj [(''name'', JString ''Alice''), (''ssn'', JString ''123-45-6789'')];
          new = jobj [(''name'', JString ''Alice'')];
          changed = diff_fields old new
      in ''ssn'' \<in> set changed)"

definition test_all_fields :: bool where
  "test_all_fields =
     (let doc = jobj [(''a'', JNumber (PosInt 1)), (''b'', JNumber (PosInt 2)), (''c'', JNumber (PosInt 3))];
          fields = all_fields doc
      in length fields = 3)"

definition test_redact :: bool where
  "test_redact =
     (let doc = jobj [(''name'', JString ''Alice''), (''card_number'', JString ''4111111111111111''),
                      (''cvv'', JString ''123'')];
          matches = [\<lparr>sm_json_path = ''card_number'', sm_redact = True\<rparr>,
                     \<lparr>sm_json_path = ''cvv'', sm_redact = True\<rparr>];
          doc' = redact doc matches
      in jget doc' ''card_number'' = JString ''[REDACTED]'' \<and>
         jget doc' ''cvv'' = JString ''[REDACTED]'' \<and>
         jget doc' ''name'' = JString ''Alice'')"

definition test_redact_respects_flag :: bool where
  "test_redact_respects_flag =
     (let doc = jobj [(''card_number'', JString ''4111111111111111''), (''email'', JString ''a@b.com'')];
          matches = [\<lparr>sm_json_path = ''card_number'', sm_redact = True\<rparr>,
                     \<lparr>sm_json_path = ''email'', sm_redact = False\<rparr>];
          doc' = redact doc matches
      in jget doc' ''card_number'' = JString ''[REDACTED]'' \<and>
         jget doc' ''email'' = JString ''a@b.com'')"

section \<open>WAL capture\<close>

definition test_parse_insert_line :: bool where
  "test_parse_insert_line =
     (let line = ''table public.users: INSERT: id[integer]:1 data[jsonb]:'' @ [quote_char] @ ''{'' @
            in_dquotes ''name'' @ '': '' @ in_dquotes ''Alice'' @ ''}'' @ [quote_char]
      in case parse_change_line line of
           None \<Rightarrow> False
         | Some (cmd, schema, table, cols) \<Rightarrow>
             cmd = ''INSERT'' \<and> schema = ''public'' \<and> table = ''users'' \<and> cols \<noteq> [])"

definition test_parse_update_line :: bool where
  "test_parse_update_line =
     (let line = ''table collections.orders: UPDATE: id[integer]:5 data[jsonb]:'' @ [quote_char] @ ''{'' @
            in_dquotes ''total'' @ '': 100}'' @ [quote_char]
      in case parse_change_line line of
           None \<Rightarrow> False
         | Some (cmd, schema, table, _) \<Rightarrow>
             cmd = ''UPDATE'' \<and> schema = ''collections'' \<and> table = ''orders'')"

definition test_parse_delete_line :: bool where
  "test_parse_delete_line =
     (case parse_change_line ''table public.users: DELETE: id[integer]:1'' of
        None \<Rightarrow> False
      | Some (cmd, schema, table, _) \<Rightarrow> cmd = ''DELETE'' \<and> schema = ''public'' \<and> table = ''users'')"

definition test_parse_begin_commit_skipped :: bool where
  "test_parse_begin_commit_skipped =
     (parse_change_line ''BEGIN 12345'' = None \<and> parse_change_line ''COMMIT 12345'' = None)"

definition test_parse_escaped_single_quotes :: bool where
  "test_parse_escaped_single_quotes =
     (let line = ''table public.users: INSERT: id[integer]:1 name[text]:'' @ [quote_char] @ ''O'' @
            [quote_char, quote_char] @ ''Brien'' @ [quote_char]
      in case parse_change_line line of
           None \<Rightarrow> False
         | Some (cmd, _, _, cols) \<Rightarrow>
             cmd = ''INSERT'' \<and>
             (case find (\<lambda>c. pc_name c = ''name'') cols of
                None \<Rightarrow> False
              | Some name_col \<Rightarrow> pc_value name_col = ''O'' @ [quote_char] @ ''Brien''))"

text \<open>The JSON text of this test, which the parser has to read as the document \<open>test_document\<close>.\<close>

definition test_document_text :: string where
  "test_document_text =
     ''{'' @ in_dquotes ''name'' @ '': '' @ in_dquotes ''Alice'' @ '', '' @ in_dquotes ''email'' @ '': '' @
     in_dquotes ''alice@test.com'' @ ''}''"

definition test_document :: json where
  "test_document = jobj [(''name'', JString ''Alice''), (''email'', JString ''alice@test.com'')]"

definition test_columns_to_jsonb_parses_json_data :: "(string \<Rightarrow> json option) \<Rightarrow> bool" where
  "test_columns_to_jsonb_parses_json_data from_str =
     (let cols = [\<lparr>pc_name = ''id'', pc_value = ''1'', pc_is_old = False\<rparr>,
                  \<lparr>pc_name = ''data'', pc_value = test_document_text, pc_is_old = False\<rparr>];
          result = columns_to_jsonb from_str cols
      in is_object result \<and> is_object (jget result ''data'') \<and>
         jget (jget result ''data'') ''name'' = JString ''Alice'')"

section \<open>All of them pass\<close>

lemma chain_tests: "test_chain_produces_hashes H" "test_chain_links H"
proof -
  have app: "\<exists>c e'. chain_apply H c0 (jobj kvs) = Some (c, e', prev_hash c0, link_hash H (prev_hash c0) (jobj kvs)) \<and>
      prev_hash c = link_hash H (prev_hash c0) (jobj kvs) \<and> chain_length c = chain_length c0 + 1 \<and>
      jget e' ''prev_hash'' = JString (prev_hash c0) \<and>
      jget e' ''event_hash'' = JString (link_hash H (prev_hash c0) (jobj kvs))" for c0 kvs
  proof -
    obtain c e' p h where r: "chain_apply H c0 (jobj kvs) = Some (c, e', p, h)"
      using chain_apply_None [of H c0 "jobj kvs"]
      by (cases "chain_apply H c0 (jobj kvs)") (auto simp: jobj_def)
    from chain_apply_Some [OF r] show ?thesis by (simp add: r)
  qed
  show "test_chain_produces_hashes H"
  proof -
    have "case chain_apply H new_chain (jobj kvs) of
        None \<Rightarrow> False
      | Some (chain, event', _) \<Rightarrow>
          as_str (jget event' ''prev_hash'') \<noteq> None \<and> as_str (jget event' ''event_hash'') \<noteq> None \<and>
          as_str (jget event' ''prev_hash'') = Some [] \<and> chain_length chain = 1" for kvs
      using app [of new_chain kvs] by (auto simp: new_chain_def)
    then show ?thesis by (simp only: test_chain_produces_hashes_def Let_def)
  qed
  obtain c1 e1 where 1: "chain_apply H new_chain (test_event ''A'' ''t1'') =
        Some (c1, e1, [], link_hash H [] (test_event ''A'' ''t1''))"
      "prev_hash c1 = link_hash H [] (test_event ''A'' ''t1'')" "chain_length c1 = 1"
      "jget e1 ''event_hash'' = JString (link_hash H [] (test_event ''A'' ''t1''))"
    using app [of new_chain] unfolding test_event_def by (simp add: new_chain_def) blast
  obtain c2 e2 where 2: "chain_apply H c1 (test_event ''B'' ''t2'') =
        Some (c2, e2, prev_hash c1, link_hash H (prev_hash c1) (test_event ''B'' ''t2''))"
      "chain_length c2 = chain_length c1 + 1" "jget e2 ''prev_hash'' = JString (prev_hash c1)"
    using app [of c1] unfolding test_event_def by blast
  show "test_chain_links H" by (simp add: test_chain_links_def 1 2)
qed

lemma sensitive_tests:
  "test_diff_fields_detects_changes" "test_diff_fields_detects_added"
  "test_diff_fields_detects_removed" "test_all_fields" "test_redact" "test_redact_respects_flag"
  by code_simp+

lemma capture_tests:
  "test_parse_insert_line" "test_parse_update_line" "test_parse_delete_line"
  "test_parse_begin_commit_skipped" "test_parse_escaped_single_quotes"
  by code_simp+

lemma document_test:
  assumes "from_str test_document_text = Some test_document"
  shows "test_columns_to_jsonb_parses_json_data from_str"
proof -
  have "test_document_text \<noteq> ''null''" by code_simp
  then show ?thesis
    using assms
    by (simp add: test_columns_to_jsonb_parses_json_data_def columns_to_jsonb_def insert_column_value_def
        jget_def obj_get_insert test_document_def jlookup_jobj split: option.split)
      (simp add: jobj_def)
qed

text \<open>The model passes every unit test of the repository: the tests of the hash chain for every hash
  function, those of the sensitive fields and of the WAL parser as they are, and the test of the
  document for every JSON parser that reads its JSON text as the document it denotes.\<close>

theorem unit_tests_pass:
  assumes "from_str test_document_text = Some test_document"
  shows "test_chain_produces_hashes H \<and> test_chain_links H \<and>
    test_diff_fields_detects_changes \<and> test_diff_fields_detects_added \<and>
    test_diff_fields_detects_removed \<and> test_all_fields \<and> test_redact \<and> test_redact_respects_flag \<and>
    test_parse_insert_line \<and> test_parse_update_line \<and> test_parse_delete_line \<and>
    test_parse_begin_commit_skipped \<and> test_parse_escaped_single_quotes \<and>
    test_columns_to_jsonb_parses_json_data from_str"
  by (intro conjI chain_tests sensitive_tests capture_tests document_test [where from_str = from_str, OF assms])

theorem unit_tests_pass_witness:
  "test_columns_to_jsonb_parses_json_data (\<lambda>s. if s = test_document_text then Some test_document else None)"
  using unit_tests_pass [of "\<lambda>s. if s = test_document_text then Some test_document else None"] by simp

end
