(* ===== verification/JsonText.thy ===== *)
theory JsonText
  imports Json
begin

text \<open>
  JSON text, as far as the events of the extension need it (RFC 8259 without white space, fractions and
  arrays): a tree \<open>jtext\<close> of what is written, the bytes it is written as (\<open>write_json\<close>), and the value
  it denotes (\<open>denote\<close>), with the last of two equal keys deciding, as \<open>serde_json\<close> documents for maps.
  \<open>valid_utf8\<close> is the well-formedness of RFC 3629, without which no text is JSON. \<open>reads\<close> says that a
  parser returns for a written tree of UTF-8 strings what the tree denotes.
\<close>

section \<open>Text\<close>

abbreviation dquote :: char where "dquote \<equiv> CHR 0x22"

abbreviation backslash :: char where "backslash \<equiv> CHR 0x5C"

text \<open>A string literal is kept as its body, the text between the quotes.\<close>

datatype jtext =
    TNull
  | TBool bool
  | TInt int
  | TString string
  | TObject "(string \<times> jtext) list"

definition show_int :: "int \<Rightarrow> string" where
  "show_int i = (if i < 0 then CHR ''-'' # show_nat (nat (- i)) else show_nat (nat i))"

fun comma_list :: "string list \<Rightarrow> string" where
  "comma_list [] = []"
| "comma_list [t] = t"
| "comma_list (t # u # ts) = t @ CHR '','' # comma_list (u # ts)"

definition quoted :: "string \<Rightarrow> string" where
  "quoted body = dquote # body @ [dquote]"

fun write_json :: "jtext \<Rightarrow> string" where
  "write_json TNull = ''null''"
| "write_json (TBool b) = (if b then ''true'' else ''false'')"
| "write_json (TInt i) = show_int i"
| "write_json (TString body) = quoted body"
| "write_json (TObject ms) =
     CHR ''{'' # comma_list (map (\<lambda>(k, t). quoted k @ CHR '':'' # write_json t) ms) @ ''}''"

section \<open>Escapes\<close>

definition byte :: "char \<Rightarrow> nat" where
  "byte c = of_char c"

definition control :: "char \<Rightarrow> bool" where
  "control c \<longleftrightarrow> byte c < 32"

definition plain_char :: "char \<Rightarrow> bool" where
  "plain_char c \<longleftrightarrow> c \<noteq> dquote \<and> c \<noteq> backslash \<and> \<not> control c"

definition hex_value :: "char \<Rightarrow> nat option" where
  "hex_value c =
     (if 48 \<le> byte c \<and> byte c \<le> 57 then Some (byte c - 48)
      else if 97 \<le> byte c \<and> byte c \<le> 102 then Some (byte c - 87)
      else if 65 \<le> byte c \<and> byte c \<le> 70 then Some (byte c - 55)
      else None)"

definition simple_escape :: "char \<Rightarrow> char option" where
  "simple_escape e =
     (if e = dquote \<or> e = backslash \<or> e = CHR ''/'' then Some e
      else if e = CHR ''n'' then Some (CHR 0x0A)
      else if e = CHR ''r'' then Some (CHR 0x0D)
      else if e = CHR ''t'' then Some (CHR 0x09)
      else if e = CHR ''b'' then Some (CHR 0x08)
      else if e = CHR ''f'' then Some (CHR 0x0C)
      else None)"

text \<open>The value of a body. A \<open>\u\<close> escape is read for the code points below 128 only; the others are
  not needed here.\<close>

definition hex4 :: "char \<Rightarrow> char \<Rightarrow> char \<Rightarrow> char \<Rightarrow> char option" where
  "hex4 a b c d =
     (case (hex_value a, hex_value b, hex_value c, hex_value d) of
        (Some w, Some x, Some y, Some z) \<Rightarrow>
          (let v = ((w * 16 + x) * 16 + y) * 16 + z in if v < 128 then Some (char_of v) else None)
      | _ \<Rightarrow> None)"

fun unescape :: "string \<Rightarrow> string option" where
  "unescape [] = Some []"
| "unescape (c # s) =
     (if c = backslash then
        (case s of
           [] \<Rightarrow> None
         | e # s1 \<Rightarrow>
             (if e = CHR ''u'' then
                (case s1 of
                   h1 # h2 # h3 # h4 # s2 \<Rightarrow>
                     (case hex4 h1 h2 h3 h4 of
                        None \<Rightarrow> None
                      | Some x \<Rightarrow> map_option (Cons x) (unescape s2))
                 | _ \<Rightarrow> None)
              else
                (case simple_escape e of
                   None \<Rightarrow> None
                 | Some x \<Rightarrow> map_option (Cons x) (unescape s1))))
      else if plain_char c then map_option (Cons c) (unescape s)
      else None)"

section \<open>Values\<close>

definition int_value :: "int \<Rightarrow> json option" where
  "int_value i =
     (if 0 \<le> i \<and> i < 2 ^ 64 then Some (JNumber (PosInt (of_int i)))
      else if - (2 ^ 63) \<le> i \<and> i < 0 then Some (JNumber (NegInt (of_int i)))
      else None)"

fun denote :: "jtext \<Rightarrow> json option"
  and denote_members :: "(string \<times> jtext) list \<Rightarrow> (string \<times> json) list option"
where
  "denote TNull = Some JNull"
| "denote (TBool b) = Some (JBool b)"
| "denote (TInt i) = int_value i"
| "denote (TString body) = map_option JString (unescape body)"
| "denote (TObject ms) = map_option jobj (denote_members ms)"
| "denote_members [] = Some []"
| "denote_members ((k, t) # ms) =
     (case (unescape k, denote t, denote_members ms) of
        (Some key, Some v, Some kvs) \<Rightarrow> Some ((key, v) # kvs)
      | _ \<Rightarrow> None)"

section \<open>UTF-8\<close>

definition continuation :: "char \<Rightarrow> bool" where
  "continuation c \<longleftrightarrow> 128 \<le> byte c \<and> byte c < 192"

text \<open>The second byte after a lead byte of three or four bytes is restricted.\<close>

definition second_byte :: "char \<Rightarrow> char \<Rightarrow> bool" where
  "second_byte a b \<longleftrightarrow>
     continuation b \<and> (byte a = 0xE0 \<longrightarrow> 0xA0 \<le> byte b) \<and> (byte a = 0xED \<longrightarrow> byte b < 0xA0) \<and>
     (byte a = 0xF0 \<longrightarrow> 0x90 \<le> byte b) \<and> (byte a = 0xF4 \<longrightarrow> byte b < 0x90)"

fun valid_utf8 :: "string \<Rightarrow> bool" where
  "valid_utf8 [] \<longleftrightarrow> True"
| "valid_utf8 (a # s) \<longleftrightarrow>
     (if byte a < 128 then valid_utf8 s
      else if 0xC2 \<le> byte a \<and> byte a \<le> 0xDF then
        (case s of b # s' \<Rightarrow> continuation b \<and> valid_utf8 s' | _ \<Rightarrow> False)
      else if 0xE0 \<le> byte a \<and> byte a \<le> 0xEF then
        (case s of b # c # s' \<Rightarrow> second_byte a b \<and> continuation c \<and> valid_utf8 s' | _ \<Rightarrow> False)
      else if 0xF0 \<le> byte a \<and> byte a \<le> 0xF4 then
        (case s of b # c # d # s' \<Rightarrow>
           second_byte a b \<and> continuation c \<and> continuation d \<and> valid_utf8 s' | _ \<Rightarrow> False)
      else False)"

text \<open>The bytes that start a character of several bytes.\<close>

definition lead_byte :: "char \<Rightarrow> bool" where
  "lead_byte c \<longleftrightarrow> 0xC2 \<le> byte c \<and> byte c \<le> 0xF4"

text \<open>A parser of JSON text, on the texts written from a tree whose strings are UTF-8.\<close>

fun utf8_text :: "jtext \<Rightarrow> bool" where
  "utf8_text (TString body) \<longleftrightarrow> valid_utf8 body"
| "utf8_text (TObject ms) \<longleftrightarrow> (\<forall>kt \<in> set ms. valid_utf8 (fst kt) \<and> utf8_text (snd kt))"
| "utf8_text _ \<longleftrightarrow> True"

definition reads :: "(string \<Rightarrow> json option) \<Rightarrow> jtext \<Rightarrow> bool" where
  "reads parse t \<longleftrightarrow> (utf8_text t \<longrightarrow> denote t \<noteq> None \<longrightarrow> parse (write_json t) = denote t)"

section \<open>Lemmas\<close>

lemma plain_not_backslash: "\<not> plain_char backslash"
  by (simp add: plain_char_def)

lemma unescape_plain_char: "plain_char c \<Longrightarrow> unescape (c # s) = map_option (Cons c) (unescape s)"
  by (auto simp: plain_char_def)

lemma unescape_simple_escape:
  "\<lbrakk>e \<noteq> CHR ''u''; simple_escape e = Some x\<rbrakk> \<Longrightarrow>
     unescape (backslash # e # s) = map_option (Cons x) (unescape s)"
  by simp

lemma unescape_code_point:
  "hex4 a b c d = Some x \<Longrightarrow>
     unescape (backslash # CHR ''u'' # a # b # c # d # s) = map_option (Cons x) (unescape s)"
  by simp

declare unescape.simps(2) [simp del]

lemma unescape_plain_append:
  "list_all plain_char s \<Longrightarrow> unescape (s @ t) = map_option ((@) s) (unescape t)"
  by (induction s; cases "unescape t") (simp_all add: unescape_plain_char)

lemma unescape_plain: "list_all plain_char s \<Longrightarrow> unescape s = Some s"
  using unescape_plain_append [of s "[]"] by simp

text \<open>A character of several bytes must be complete: an ASCII byte after its first byte makes the whole
  text ill-formed, wherever it stands.\<close>

lemma valid_utf8_first:
  assumes "valid_utf8 (a # s)"
  obtains u v where "s = u @ v" "list_all continuation u" "valid_utf8 v" "byte a < 128 \<longleftrightarrow> u = []"
    "\<And>w. valid_utf8 w \<Longrightarrow> valid_utf8 (a # u @ w)"
proof -
  consider (one) "byte a < 128" | (two) "0xC2 \<le> byte a" "byte a \<le> 0xDF"
    | (three) "0xE0 \<le> byte a" "byte a \<le> 0xEF" | (four) "0xF0 \<le> byte a" "byte a \<le> 0xF4"
    using assms by (metis valid_utf8.simps(2))
  then show thesis
  proof cases
    case one
    then show thesis using assms that [of "[]" s] by simp
  next
    case two
    with assms obtain b s' where "s = b # s'" "continuation b" "valid_utf8 s'"
      by (auto split: list.splits)
    then show thesis using two that [of "[b]" s'] by simp
  next
    case three
    with assms obtain b c s' where "s = b # c # s'" "second_byte a b" "continuation c" "valid_utf8 s'"
      by (auto split: list.splits)
    then show thesis using three that [of "[b, c]" s'] by (simp add: second_byte_def)
  next
    case four
    with assms obtain b c d s' where "s = b # c # d # s'" "second_byte a b" "continuation c"
        "continuation d" "valid_utf8 s'"
      by (auto split: list.splits)
    then show thesis using four that [of "[b, c, d]" s'] by (simp add: second_byte_def)
  qed
qed

lemma valid_utf8_ascii: "byte a < 128 \<Longrightarrow> valid_utf8 (a # s) \<longleftrightarrow> valid_utf8 s"
  by simp

declare valid_utf8.simps(2) [simp del]

lemma valid_utf8_append: "valid_utf8 x \<Longrightarrow> valid_utf8 y \<Longrightarrow> valid_utf8 (x @ y)"
proof (induction x rule: length_induct)
  case (1 x)
  show ?case
  proof (cases x)
    case (Cons a s)
    with 1(2) obtain u v where "s = u @ v" "valid_utf8 v" "\<And>w. valid_utf8 w \<Longrightarrow> valid_utf8 (a # u @ w)"
      using valid_utf8_first by metis
    moreover from this have "valid_utf8 (v @ y)" using 1(1,3) Cons by simp
    ultimately show ?thesis using Cons by simp
  qed (use 1 in simp)
qed

lemma valid_utf8_ascii_text: "list_all (\<lambda>c. byte c < 128) s \<Longrightarrow> valid_utf8 s"
  by (induction s) (simp_all add: valid_utf8_ascii)

lemma broken_character:
  assumes "lead_byte l" and "byte a < 128"
  shows "\<not> valid_utf8 (x @ l # a # y)"
proof (induction x rule: length_induct)
  case (1 x)
  have starts: "\<not> continuation l" "\<not> continuation a"
    using assms by (auto simp: lead_byte_def continuation_def)
  show ?case
  proof
    assume valid: "valid_utf8 (x @ l # a # y)"
    show False
    proof (cases x)
      case Nil
      with valid have "valid_utf8 (l # a # y)" by simp
      then obtain u v where "a # y = u @ v" "list_all continuation u" "byte l < 128 \<longleftrightarrow> u = []"
        by (rule valid_utf8_first)
      then show False using starts assms(1) by (cases u) (auto simp: lead_byte_def)
    next
      case x: (Cons b t)
      with valid have "valid_utf8 (b # t @ l # a # y)" by simp
      then obtain u v where uv: "t @ l # a # y = u @ v" "list_all continuation u" "valid_utf8 v"
        by (rule valid_utf8_first)
      then obtain us where "(t @ us = u \<and> l # a # y = us @ v) \<or> (t = u @ us \<and> us @ l # a # y = v)"
        by (auto simp: append_eq_append_conv2)
      moreover have "us = []" if "l # a # y = us @ v" "t @ us = u"
        using that uv(2) starts(1) by (cases us) auto
      ultimately obtain t' where "v = t' @ l # a # y" "length t' \<le> length t" by fastforce
      then show False using 1 uv(3) x by auto
    qed
  qed
qed

end
