(* ===== verification/Extension.thy ===== *)
theory Extension
  imports JsonText
begin

text \<open>
  The PostgreSQL extension (\<open>ext/vibe_audit.c\<close>, \<open>vibe_hooks.c\<close>, \<open>vibe_emit.c\<close>): the hooks, the texts of
  the three kinds of events, and the UDP socket they leave through. A C string is the list of its bytes
  before the terminating NUL, a pointer that may be \<open>NULL\<close> an option.

  \<^item> \<open>backend\<close> is what an event reads from the server process, \<open>clock\<close> the broken-down UTC time of the event.
  \<^item> A parse tree of the server is the datatype \<open>utility_stmt\<close>, with the fields the extension reads.
  \<^item> What \<open>sendto\<close> answers is an input; datagrams and log lines are the output.
\<close>

section \<open>Escaping\<close>

definition vibe_max_event_size :: nat where
  "vibe_max_event_size = 8192"

definition hex_digit :: "nat \<Rightarrow> char" where
  "hex_digit d = char_of (if d < 10 then 48 + d else 87 + d)"

definition escape_u :: "char \<Rightarrow> string" where
  "escape_u c = backslash # ''u00'' @ [hex_digit (byte c div 16), hex_digit (byte c mod 16)]"

text \<open>The loop of \<open>vibe_json_escape\<close>: \<open>dst\<close> is what has been written, and \<open>di\<close> its length.\<close>

fun escape_loop :: "nat \<Rightarrow> string \<Rightarrow> string \<Rightarrow> string" where
  "escape_loop dst_size dst [] = dst"
| "escape_loop dst_size dst (c # src) =
     (let di = length dst in
      if \<not> di + 1 < dst_size then dst
      else if c = dquote \<or> c = backslash then
        (if di + 2 \<ge> dst_size then dst else escape_loop dst_size (dst @ [backslash, c]) src)
      else if c = CHR 0x0A then
        (if di + 2 \<ge> dst_size then dst else escape_loop dst_size (dst @ [backslash, CHR ''n'']) src)
      else if c = CHR 0x0D then
        (if di + 2 \<ge> dst_size then dst else escape_loop dst_size (dst @ [backslash, CHR ''r'']) src)
      else if c = CHR 0x09 then
        (if di + 2 \<ge> dst_size then dst else escape_loop dst_size (dst @ [backslash, CHR ''t'']) src)
      else if control c then
        (if di + 6 \<ge> dst_size then dst else escape_loop dst_size (dst @ escape_u c) src)
      else escape_loop dst_size (dst @ [c]) src)"

definition vibe_json_escape :: "nat \<Rightarrow> string option \<Rightarrow> string" where
  "vibe_json_escape dst_size src = (case src of None \<Rightarrow> [] | Some s \<Rightarrow> escape_loop dst_size [] s)"

section \<open>Statements of the server\<close>

datatype object_type =
    OBJECT_TABLE | OBJECT_INDEX | OBJECT_SEQUENCE | OBJECT_VIEW | OBJECT_FUNCTION | OBJECT_SCHEMA
  | OBJECT_TRIGGER | OBJECT_EXTENSION | OBJECT_ROLE | OBJECT_other

record range_var =
  schemaname :: "string option"
  relname :: "string option"

datatype utility_stmt =
    CreateStmt "range_var option"
  | IndexStmt | CreateFunctionStmt | ViewStmt | CreateSchemaStmt | CreateSeqStmt | CreateTrigStmt
  | CreateExtensionStmt
  | AlterTableStmt "range_var option"
  | RenameStmt
  | DropStmt object_type
  | GrantStmt object_type bool
  | GrantRoleStmt
  | CreateRoleStmt "string option"
  | AlterRoleStmt
  | DropRoleStmt
  | Other_stmt

fun vibe_node_tag_to_ddl :: "utility_stmt \<Rightarrow> string option" where
  "vibe_node_tag_to_ddl (CreateStmt _) = Some ''CREATE TABLE''"
| "vibe_node_tag_to_ddl IndexStmt = Some ''CREATE INDEX''"
| "vibe_node_tag_to_ddl CreateFunctionStmt = Some ''CREATE FUNCTION''"
| "vibe_node_tag_to_ddl ViewStmt = Some ''CREATE VIEW''"
| "vibe_node_tag_to_ddl CreateSchemaStmt = Some ''CREATE SCHEMA''"
| "vibe_node_tag_to_ddl CreateSeqStmt = Some ''CREATE SEQUENCE''"
| "vibe_node_tag_to_ddl CreateTrigStmt = Some ''CREATE TRIGGER''"
| "vibe_node_tag_to_ddl CreateExtensionStmt = Some ''CREATE EXTENSION''"
| "vibe_node_tag_to_ddl (AlterTableStmt _) = Some ''ALTER TABLE''"
| "vibe_node_tag_to_ddl RenameStmt = Some ''RENAME''"
| "vibe_node_tag_to_ddl (DropStmt _) = Some ''DROP''"
| "vibe_node_tag_to_ddl (GrantStmt _ _) = Some ''GRANT''"
| "vibe_node_tag_to_ddl GrantRoleStmt = Some ''GRANT ROLE''"
| "vibe_node_tag_to_ddl (CreateRoleStmt _) = Some ''CREATE ROLE''"
| "vibe_node_tag_to_ddl AlterRoleStmt = Some ''ALTER ROLE''"
| "vibe_node_tag_to_ddl DropRoleStmt = Some ''DROP ROLE''"
| "vibe_node_tag_to_ddl Other_stmt = None"

fun vibe_object_type_str :: "object_type \<Rightarrow> string" where
  "vibe_object_type_str OBJECT_TABLE = ''TABLE''"
| "vibe_object_type_str OBJECT_INDEX = ''INDEX''"
| "vibe_object_type_str OBJECT_SEQUENCE = ''SEQUENCE''"
| "vibe_object_type_str OBJECT_VIEW = ''VIEW''"
| "vibe_object_type_str OBJECT_FUNCTION = ''FUNCTION''"
| "vibe_object_type_str OBJECT_SCHEMA = ''SCHEMA''"
| "vibe_object_type_str OBJECT_TRIGGER = ''TRIGGER''"
| "vibe_object_type_str OBJECT_EXTENSION = ''EXTENSION''"
| "vibe_object_type_str OBJECT_ROLE = ''ROLE''"
| "vibe_object_type_str OBJECT_other = ''UNKNOWN''"

text \<open>What the \<open>switch\<close> over the node tag takes from a statement.\<close>

record stmt_info =
  ddl_tag :: string
  object_type :: "string option"
  object_name :: "string option"
  schema_name :: "string option"

definition relation_info :: "stmt_info \<Rightarrow> range_var option \<Rightarrow> stmt_info" where
  "relation_info i relation =
     (case relation of
        None \<Rightarrow> i
      | Some r \<Rightarrow> i\<lparr>schema_name := schemaname r, object_name := relname r\<rparr>)\<lparr>object_type := Some ''TABLE''\<rparr>"

definition stmt_info_of :: "utility_stmt \<Rightarrow> stmt_info option" where
  "stmt_info_of stmt =
     (case vibe_node_tag_to_ddl stmt of
        None \<Rightarrow> None
      | Some tag \<Rightarrow>
          (let i = \<lparr>ddl_tag = tag, object_type = None, object_name = None, schema_name = None\<rparr> in
           Some (case stmt of
                   CreateStmt relation \<Rightarrow> relation_info i relation
                 | DropStmt removeType \<Rightarrow> i\<lparr>object_type := Some (vibe_object_type_str removeType)\<rparr>
                 | AlterTableStmt relation \<Rightarrow> relation_info i relation
                 | GrantStmt objtype is_grant \<Rightarrow>
                     i\<lparr>object_type := Some (vibe_object_type_str objtype),
                       ddl_tag := (if is_grant then ''GRANT'' else ''REVOKE'')\<rparr>
                 | CreateRoleStmt role \<Rightarrow> i\<lparr>object_name := role, object_type := Some ''ROLE''\<rparr>
                 | DropRoleStmt \<Rightarrow> i\<lparr>object_type := Some ''ROLE''\<rparr>
                 | _ \<Rightarrow> i)))"

section \<open>Events\<close>

record backend =
  my_user :: string
  my_database :: "string option"
  my_pid :: int
  application_name :: "string option"

record clock =
  clk_year :: nat
  clk_month :: nat
  clk_day :: nat
  clk_hour :: nat
  clk_minute :: nat
  clk_second :: nat
  clk_milli :: nat

definition zero_padded :: "nat \<Rightarrow> nat \<Rightarrow> string" where
  "zero_padded w n = replicate (w - length (show_nat n)) (CHR ''0'') @ show_nat n"

text \<open>\<open>snprintf\<close> into a buffer of 64 bytes.\<close>

definition timebuf :: "clock \<Rightarrow> string" where
  "timebuf t = take 63
     (zero_padded 4 (clk_year t) @ ''-'' @ zero_padded 2 (clk_month t) @ ''-'' @ zero_padded 2 (clk_day t) @ ''T'' @
      zero_padded 2 (clk_hour t) @ '':'' @ zero_padded 2 (clk_minute t) @ '':'' @ zero_padded 2 (clk_second t) @
      ''.'' @ zero_padded 3 (clk_milli t) @ ''Z'')"

definition or_empty :: "string option \<Rightarrow> string" where
  "or_empty p = (case p of Some s \<Rightarrow> s | None \<Rightarrow> [])"

text \<open>\<open>%s\<close> of the server's \<open>snprintf\<close>: \<open>get_database_name\<close> may return a null pointer.\<close>

definition percent_s :: "string option \<Rightarrow> string" where
  "percent_s p = (case p of Some s \<Rightarrow> s | None \<Rightarrow> ''(null)'')"

lemma percent_s_Some [simp]: "percent_s (Some s) = s"
  by (simp add: percent_s_def)

text \<open>\<open>%s%s%s\<close> with the quotes, or the word \<open>null\<close>.\<close>

definition nullable :: "string option \<Rightarrow> string" where
  "nullable p = (case p of Some s \<Rightarrow> dquote # s @ [dquote] | None \<Rightarrow> ''null'')"

text \<open>The text is sent when it fits the buffer, the terminator included.\<close>

definition fits_buffer :: "string \<Rightarrow> string option" where
  "fits_buffer text = (if 0 < length text \<and> length text < vibe_max_event_size then Some text else None)"

subsection \<open>Logins\<close>

record port =
  user_name :: "string option"
  database_name :: "string option"
  remote_host :: "string option"
  remote_port :: "string option"

definition status_ok :: int where
  "status_ok = 0"

text \<open>\<open>atoi\<close>: white space, a sign, digits; a value beyond \<open>int\<close> is undefined in C and not used.\<close>

definition atoi :: "string \<Rightarrow> int" where
  "atoi s =
     (let t = dropWhile (\<lambda>c. c \<in> {CHR '' '', CHR 0x09, CHR 0x0A, CHR 0x0B, CHR 0x0C, CHR 0x0D}) s;
          (sign, u) = (case t of
             c # u \<Rightarrow> if c = CHR ''-'' then (-1, u) else if c = CHR ''+'' then (1, u) else (1, t)
           | [] \<Rightarrow> (1, []));
          digits = takeWhile (\<lambda>c. 48 \<le> byte c \<and> byte c \<le> 57) u
      in sign * fold (\<lambda>c v. v * 10 + (int (byte c) - 48)) digits 0)"

definition auth_event_text :: "backend \<Rightarrow> clock \<Rightarrow> port \<Rightarrow> int \<Rightarrow> string" where
\<open>auth_event_text b t p status =
     ''{'' @
     ''"event_type":"'' @ (if status = status_ok then ''AUTH_SUCCESS'' else ''AUTH_FAIL'') @ ''",'' @
     ''"event_time":"'' @ timebuf t @ ''",'' @
     ''"success":'' @ (if status = status_ok then ''true'' else ''false'') @ '','' @
     ''"session_user":"'' @ or_empty (user_name p) @ ''",'' @
     ''"client_addr":"'' @ or_empty (remote_host p) @ ''",'' @
     ''"client_port":'' @ show_int (atoi (case remote_port p of Some s \<Rightarrow> s | None \<Rightarrow> ''0'')) @ '','' @
     ''"database":"'' @ or_empty (database_name p) @ ''",'' @
     ''"pid":'' @ show_int (my_pid b) @ '','' @
     ''"application":"'' @ or_empty (application_name b) @ ''",'' @
     ''"command_tag":"authentication",'' @
     ''"object_type":null,'' @
     ''"object_name":null,'' @
     ''"schema_name":null,'' @
     ''"query_text":null,'' @
     ''"sqlstate":"'' @ (if status = status_ok then ''00000'' else ''28P01'') @ ''",'' @
     ''"detail":{"reason":"'' @
       (if status = status_ok then ''authentication successful'' else ''password authentication failed'') @ ''"}'' @
     ''}''\<close>

definition vibe_emit_auth_event :: "backend \<Rightarrow> clock \<Rightarrow> port \<Rightarrow> int \<Rightarrow> string option" where
  "vibe_emit_auth_event b t p status = fits_buffer (auth_event_text b t p status)"

subsection \<open>Utility statements\<close>

definition utility_event_text ::
  "backend \<Rightarrow> clock \<Rightarrow> stmt_info \<Rightarrow> string \<Rightarrow> bool \<Rightarrow> string" where
\<open>utility_event_text b t i escaped_query success =
     ''{'' @
     ''"event_type":"DDL",'' @
     ''"event_time":"'' @ timebuf t @ ''",'' @
     ''"success":'' @ (if success then ''true'' else ''false'') @ '','' @
     ''"session_user":"'' @ my_user b @ ''",'' @
     ''"client_addr":"",'' @
     ''"client_port":0,'' @
     ''"database":"'' @ percent_s (my_database b) @ ''",'' @
     ''"pid":'' @ show_int (my_pid b) @ '','' @
     ''"application":"'' @ or_empty (application_name b) @ ''",'' @
     ''"command_tag":"'' @ ddl_tag i @ ''",'' @
     ''"object_type":'' @ nullable (object_type i) @ '','' @
     ''"object_name":'' @ nullable (object_name i) @ '','' @
     ''"schema_name":'' @ nullable (schema_name i) @ '','' @
     ''"query_text":"'' @ escaped_query @ ''",'' @
     ''"sqlstate":"00000",'' @
     ''"detail":null'' @
     ''}''\<close>

definition vibe_emit_utility_event_with_status ::
  "backend \<Rightarrow> clock \<Rightarrow> utility_stmt option \<Rightarrow> string option \<Rightarrow> bool \<Rightarrow> string option" where
  "vibe_emit_utility_event_with_status b t stmt query success =
     (case stmt of
        None \<Rightarrow> None
      | Some s \<Rightarrow>
          (case stmt_info_of s of
             None \<Rightarrow> None
           | Some i \<Rightarrow>
               fits_buffer (utility_event_text b t i
                 (vibe_json_escape (vibe_max_event_size div 2) query) success)))"

definition vibe_emit_utility_event ::
  "backend \<Rightarrow> clock \<Rightarrow> utility_stmt option \<Rightarrow> string option \<Rightarrow> string option" where
  "vibe_emit_utility_event b t stmt query = vibe_emit_utility_event_with_status b t stmt query True"

subsection \<open>Queries\<close>

datatype cmd_type = CMD_SELECT | CMD_INSERT | CMD_UPDATE | CMD_DELETE | CMD_other

fun cmd_tag :: "cmd_type \<Rightarrow> string" where
  "cmd_tag CMD_SELECT = ''SELECT''"
| "cmd_tag CMD_INSERT = ''INSERT''"
| "cmd_tag CMD_UPDATE = ''UPDATE''"
| "cmd_tag CMD_DELETE = ''DELETE''"
| "cmd_tag CMD_other = ''UNKNOWN''"

record query_desc =
  operation :: cmd_type
  source_text :: "string option"

definition executor_event_text :: "backend \<Rightarrow> clock \<Rightarrow> string \<Rightarrow> string \<Rightarrow> string" where
\<open>executor_event_text b t tag escaped_query =
     ''{'' @
     ''"event_type":"DML",'' @
     ''"event_time":"'' @ timebuf t @ ''",'' @
     ''"success":true,'' @
     ''"session_user":"'' @ my_user b @ ''",'' @
     ''"client_addr":"",'' @
     ''"client_port":0,'' @
     ''"database":"'' @ percent_s (my_database b) @ ''",'' @
     ''"pid":'' @ show_int (my_pid b) @ '','' @
     ''"application":"'' @ or_empty (application_name b) @ ''",'' @
     ''"command_tag":"'' @ tag @ ''",'' @
     ''"object_type":null,'' @
     ''"object_name":null,'' @
     ''"schema_name":null,'' @
     ''"query_text":"'' @ escaped_query @ ''",'' @
     ''"sqlstate":"00000",'' @
     ''"detail":{"superuser":true}'' @
     ''}''\<close>

definition vibe_emit_executor_event :: "backend \<Rightarrow> clock \<Rightarrow> query_desc option \<Rightarrow> string option" where
  "vibe_emit_executor_event b t qd =
     (case qd of
        None \<Rightarrow> None
      | Some q \<Rightarrow>
          (case source_text q of
             None \<Rightarrow> None
           | Some text \<Rightarrow>
               fits_buffer (executor_event_text b t (cmd_tag (operation q))
                 (vibe_json_escape (vibe_max_event_size div 2) (Some text)))))"

section \<open>The socket\<close>

definition fail_threshold :: nat where
  "fail_threshold = 10"

text \<open>An IPv4 address and a port.\<close>

type_synonym sock_addr = "32 word \<times> 16 word"

record emitter =
  socket_open :: bool
  udp_addr :: sock_addr
  consecutive_failures :: "32 word"

datatype send_result = Sent | Would_block | Send_error

datatype effect = Datagram sock_addr string | Log_failures "32 word" | Log_event string

text \<open>The counter of failures is an \<open>int\<close>, which wraps at its width (the server is compiled so).\<close>

definition at_threshold :: "32 word \<Rightarrow> bool" where
  "at_threshold n \<longleftrightarrow> int fail_threshold \<le> sint n"

text \<open>One call of \<open>vibe_emit_event\<close>, with what \<open>sendto\<close> answers (not on Windows).\<close>

definition vibe_emit_event :: "emitter \<Rightarrow> send_result \<Rightarrow> string \<Rightarrow> emitter \<times> effect list" where
  "vibe_emit_event e r json =
     (if \<not> socket_open e then (e, [])
      else if r \<noteq> Sent then
        (let n = consecutive_failures e + 1; e' = e\<lparr>consecutive_failures := n\<rparr> in
         if r = Would_block then (e', if at_threshold n then [Log_failures n] else [])
         else (e', if at_threshold n then [Log_event json] else []))
      else (e\<lparr>consecutive_failures := 0\<rparr>, [Datagram (udp_addr e) json]))"

fun emit_all :: "emitter \<Rightarrow> (send_result \<times> string) list \<Rightarrow> emitter \<times> effect list" where
  "emit_all e [] = (e, [])"
| "emit_all e ((r, text) # calls) =
     (let (e1, out) = vibe_emit_event e r text; (e2, outs) = emit_all e1 calls in (e2, out @ outs))"

section \<open>Hooks\<close>

record audit_settings =
  audit_enabled :: bool
  udp_port :: nat
  udp_host :: string
  executor_mode :: "string option"

definition default_audit_settings :: audit_settings where
  "default_audit_settings =
     \<lparr>audit_enabled = True, udp_port = 5514, udp_host = ''127.0.0.1'', executor_mode = Some ''counter''\<rparr>"

text \<open>\<open>vibe_init_socket\<close>, once when the library is loaded: \<open>inet_pton\<close> is the parser of the C library, and
  where it fails the address stays 0. Without a socket the global variables keep their initial values.\<close>

definition vibe_init_socket :: "(string \<Rightarrow> 32 word option) \<Rightarrow> audit_settings \<Rightarrow> bool \<Rightarrow> emitter" where
  "vibe_init_socket inet_pton cfg socket_ok =
     (if \<not> socket_ok then \<lparr>socket_open = False, udp_addr = (0, 0), consecutive_failures = 0\<rparr>
      else \<lparr>socket_open = True,
            udp_addr = (case inet_pton (udp_host cfg) of Some a \<Rightarrow> a | None \<Rightarrow> 0, of_nat (udp_port cfg)),
            consecutive_failures = 0\<rparr>)"

definition pg_fini :: "emitter \<Rightarrow> emitter" where
  "pg_fini e = (if socket_open e then e\<lparr>socket_open := False\<rparr> else e)"

text \<open>What the three hooks emit. The statement of \<open>vibe_process_utility_hook\<close> runs between reading the
  setting and emitting; when it raises an error, the error goes on after the event.\<close>

definition vibe_client_auth_hook ::
  "audit_settings \<Rightarrow> backend \<Rightarrow> clock \<Rightarrow> port \<Rightarrow> int \<Rightarrow> string option" where
  "vibe_client_auth_hook cfg b t p status =
     (if \<not> audit_enabled cfg then None else vibe_emit_auth_event b t p status)"

datatype 'e statement_outcome = Finished | Raised 'e

definition vibe_process_utility_hook ::
  "audit_settings \<Rightarrow> backend \<Rightarrow> clock \<Rightarrow> utility_stmt option \<Rightarrow> string option \<Rightarrow> 'e statement_outcome \<Rightarrow>
     string option \<times> 'e statement_outcome" where
  "vibe_process_utility_hook cfg b t stmt query run =
     (let emit = audit_enabled cfg in
      case run of
        Raised err \<Rightarrow>
          (if emit then vibe_emit_utility_event_with_status b t stmt query False else None, Raised err)
      | Finished \<Rightarrow> (if emit then vibe_emit_utility_event b t stmt query else None, Finished))"

definition vibe_executor_end_hook ::
  "audit_settings \<Rightarrow> backend \<Rightarrow> clock \<Rightarrow> bool \<Rightarrow> query_desc option \<Rightarrow> string option" where
  "vibe_executor_end_hook cfg b t superuser qd =
     (if audit_enabled cfg \<and> executor_mode cfg = Some ''emit'' \<and> superuser
      then vibe_emit_executor_event b t qd else None)"

section \<open>Lemmas\<close>

subsection \<open>Escaping\<close>

text \<open>What one byte is written as.\<close>

definition escape_byte :: "char \<Rightarrow> string" where
  "escape_byte c =
     (if c = dquote \<or> c = backslash then [backslash, c]
      else if c = CHR 0x0A then [backslash, CHR ''n'']
      else if c = CHR 0x0D then [backslash, CHR ''r'']
      else if c = CHR 0x09 then [backslash, CHR ''t'']
      else if control c then escape_u c
      else [c])"

definition escaped :: "string \<Rightarrow> string" where
  "escaped s = concat (map escape_byte s)"

lemma escaped_simps [simp]: "escaped [] = []" "escaped (c # s) = escape_byte c @ escaped s"
  by (simp_all add: escaped_def)

lemma length_escape_u: "length (escape_u c) = 6"
  by (simp add: escape_u_def)

lemma room_cascade:
  assumes "length x1 = 2" "length x2 = 2" "length x3 = 2" "length x4 = 2" "length x5 = 6" "length x6 = 1"
  shows "(if \<not> di + 1 < n then d
      else if qa then (if di + 2 \<ge> n then d else f x1)
      else if qb then (if di + 2 \<ge> n then d else f x2)
      else if qc then (if di + 2 \<ge> n then d else f x3)
      else if qd then (if di + 2 \<ge> n then d else f x4)
      else if qe then (if di + 6 \<ge> n then d else f x5)
      else f x6) =
     (let x = (if qa then x1 else if qb then x2 else if qc then x3 else if qd then x4 else if qe then x5 else x6)
      in if di + length x < n then f x else d)"
  using assms by (cases qa; cases qb; cases qc; cases qd; cases qe; simp)

text \<open>The loop is the escaped text of as many bytes as there is room for.\<close>

lemma escape_loop_step:
  "escape_loop n dst (c # src) =
     (if length dst + length (escape_byte c) < n then escape_loop n (dst @ escape_byte c) src else dst)"
proof -
  have "length [backslash, c] = 2" "length [backslash, CHR ''n''] = 2" "length [backslash, CHR ''r''] = 2"
    "length [backslash, CHR ''t''] = 2" "length (escape_u c) = 6" "length [c] = 1"
    by (simp_all add: length_escape_u)
  note cascade = room_cascade [OF this, where f = "\<lambda>x. escape_loop n (dst @ x) src" and d = dst
    and di = "length dst" and n = n and qa = "c = dquote \<or> c = backslash" and qb = "c = CHR 0x0A"
    and qc = "c = CHR 0x0D" and qd = "c = CHR 0x09" and qe = "control c"]
  show ?thesis
    unfolding escape_loop.simps escape_byte_def Let_def
    by (rule cascade [unfolded Let_def])
qed

declare escape_loop.simps(2) [simp del]

lemma escape_loop_prefix:
  "\<exists>k \<le> length src. escape_loop n dst src = dst @ escaped (take k src) \<and>
     (length dst + length (escaped src) < n \<longrightarrow> k = length src) \<and>
     (length dst < n \<longrightarrow> length (escape_loop n dst src) < n)"
proof (induction src arbitrary: dst)
  case Nil
  then show ?case by simp
next
  case (Cons c src)
  show ?case
  proof (cases "length dst + length (escape_byte c) < n")
    case True
    from Cons.IH [of "dst @ escape_byte c"] obtain k where k: "k \<le> length src"
      "escape_loop n (dst @ escape_byte c) src = (dst @ escape_byte c) @ escaped (take k src)"
      "length (dst @ escape_byte c) + length (escaped src) < n \<longrightarrow> k = length src"
      "length (dst @ escape_byte c) < n \<longrightarrow> length (escape_loop n (dst @ escape_byte c) src) < n"
      by blast
    have step: "escape_loop n dst (c # src) = escape_loop n (dst @ escape_byte c) src"
      by (simp only: escape_loop_step True if_True)
    show ?thesis
      using k True unfolding step by (intro exI [of _ "Suc k"]) (simp add: add.assoc)
  next
    case False
    then have "escape_loop n dst (c # src) = dst" by (simp only: escape_loop_step if_False)
    with False show ?thesis by (intro exI [of _ 0]) simp
  qed
qed

lemma byte_char_of [simp]: "byte (char_of n) = n mod 256"
  by (simp add: byte_def)

lemma char_of_byte [simp]: "char_of (byte c) = c"
  by (simp add: byte_def)

lemma hex_value_digit: "d < 16 \<Longrightarrow> hex_value (hex_digit d) = Some d"
  by (auto simp: hex_value_def hex_digit_def)

lemma hex4_escape_u:
  assumes "control c"
  shows "hex4 (CHR ''0'') (CHR ''0'') (hex_digit (byte c div 16)) (hex_digit (byte c mod 16)) = Some c"
proof -
  have "byte c < 32" using assms by (simp add: control_def)
  moreover have "hex_value (CHR ''0'') = Some 0" by (simp add: hex_value_def byte_def)
  ultimately show ?thesis by (simp add: hex4_def hex_value_digit Let_def)
qed

lemma unescape_escape_byte: "unescape (escape_byte c @ t) = map_option (Cons c) (unescape t)"
proof (cases "plain_char c \<or> \<not> control c")
  case True
  show ?thesis
  proof (cases "c = dquote \<or> c = backslash")
    case True
    then show ?thesis
      using unescape_simple_escape [of c c t] by (auto simp: escape_byte_def simple_escape_def)
  next
    case False
    with \<open>plain_char c \<or> \<not> control c\<close> have "plain_char c" "\<not> control c" by (auto simp: plain_char_def)
    then have "escape_byte c = [c]" using False by (auto simp: escape_byte_def control_def byte_def)
    then show ?thesis using unescape_plain_char [OF \<open>plain_char c\<close>] by simp
  qed
next
  case False
  then have control: "control c" and not: "\<not> (c = dquote \<or> c = backslash)"
    by (auto simp: control_def byte_def)
  show ?thesis
  proof (cases "c \<in> {CHR 0x0A, CHR 0x0D, CHR 0x09}")
    case True
    then show ?thesis
      using unescape_simple_escape [of "CHR ''n''" "CHR 0x0A" t] unescape_simple_escape [of "CHR ''r''" "CHR 0x0D" t]
        unescape_simple_escape [of "CHR ''t''" "CHR 0x09" t]
      by (auto simp: escape_byte_def simple_escape_def)
  next
    case False
    then have "escape_byte c = escape_u c" using control not by (simp only: escape_byte_def) simp
    then show ?thesis
      using unescape_code_point [OF hex4_escape_u [OF control], of t] by (simp add: escape_u_def)
  qed
qed

lemma unescape_escaped: "unescape (escaped s) = Some s"
  by (induction s) (simp_all add: unescape_escape_byte)

lemma escape_byte_plain:
  assumes "plain_char c"
  shows "escape_byte c = [c]"
proof -
  have "\<not> control c" and "\<not> (c = dquote \<or> c = backslash)" using assms by (simp_all add: plain_char_def)
  moreover from this have "c \<noteq> CHR 0x0A" "c \<noteq> CHR 0x0D" "c \<noteq> CHR 0x09" by (auto simp: control_def byte_def)
  ultimately show ?thesis by (simp only: escape_byte_def if_False)
qed

lemma escaped_plain: "list_all plain_char s \<Longrightarrow> escaped s = s"
  by (induction s) (simp_all add: escape_byte_plain)

lemma length_escape_byte_ge: "1 \<le> length (escape_byte c)"
  using unescape_escape_byte [of c "[]"] by (cases "escape_byte c") simp_all

lemma length_escaped_ge: "length s \<le> length (escaped s)"
proof (induction s)
  case (Cons c s)
  then show ?case using length_escape_byte_ge [of c] by simp
qed simp

text \<open>Escaping keeps the text UTF-8: only ASCII bytes are replaced, by ASCII bytes.\<close>

lemma high_byte_plain: "128 \<le> byte c \<Longrightarrow> plain_char c"
  by (auto simp: plain_char_def control_def byte_def)

lemma escape_byte_ascii:
  assumes "byte a < 128"
  shows "list_all (\<lambda>c. byte c < 128) (escape_byte a)"
proof -
  have "list_all (\<lambda>c. byte c < 128) (escape_u a)"
    using assms by (auto simp: escape_u_def hex_digit_def byte_def)
  moreover have "list_all (\<lambda>c. byte c < 128) ([backslash] @ ''nrt'')" by code_simp
  ultimately show ?thesis using assms by (simp only: escape_byte_def list_all_append append_Cons append_Nil
      list.pred_inject if_split simp_thms)
qed

lemma valid_utf8_escaped: "valid_utf8 q \<Longrightarrow> valid_utf8 (escaped q)"
proof (induction q rule: length_induct)
  case (1 q)
  show ?case
  proof (cases q)
    case (Cons a s)
    then have "valid_utf8 (a # s)" using 1 by simp
    then obtain u v where uv: "s = u @ v" "list_all continuation u" "valid_utf8 v" "byte a < 128 \<longleftrightarrow> u = []"
      "\<And>w. valid_utf8 w \<Longrightarrow> valid_utf8 (a # u @ w)"
      using valid_utf8_first by metis
    have v: "valid_utf8 (escaped v)" using 1 uv(1,3) Cons by simp
    show ?thesis
    proof (cases "u = []")
      case True
      then have "valid_utf8 (escape_byte a)" using uv(4) escape_byte_ascii valid_utf8_ascii_text by blast
      then show ?thesis using v True uv(1) Cons by (simp add: valid_utf8_append)
    next
      case False
      have "list_all plain_char u" using uv(2) by (auto simp: list_all_iff continuation_def high_byte_plain)
      moreover have "plain_char a" using False uv(4) by (auto intro: high_byte_plain)
      moreover have "escaped (u @ v) = escaped u @ escaped v" by (simp add: escaped_def)
      ultimately have "escaped q = a # u @ escaped v" using Cons uv(1) by (simp add: escaped_plain escape_byte_plain)
      then show ?thesis using uv(5) v by simp
    qed
  qed simp
qed

text \<open>C14: The buffer is never overrun, and what it holds is the escaped text of a prefix of the query: of the
  whole query, when that has room.\<close>

theorem escape_round_trip:
  assumes "0 < dst_size"
  shows "length (vibe_json_escape dst_size (Some query)) < dst_size \<and>
    (\<exists>k \<le> length query. unescape (vibe_json_escape dst_size (Some query)) = Some (take k query) \<and>
       (length (escaped query) < dst_size \<longrightarrow> k = length query))"
proof -
  from escape_loop_prefix [of query dst_size "[]"] assms
  have "\<exists>k \<le> length query. escape_loop dst_size [] query = escaped (take k query) \<and>
      (length (escaped query) < dst_size \<longrightarrow> k = length query) \<and>
      length (escape_loop dst_size [] query) < dst_size"
    by (simp only: append_Nil list.size add_0 simp_thms)
  then obtain k where k: "k \<le> length query" "escape_loop dst_size [] query = escaped (take k query)"
      "length (escaped query) < dst_size \<longrightarrow> k = length query"
      "length (escape_loop dst_size [] query) < dst_size"
    by blast
  show ?thesis
    unfolding vibe_json_escape_def option.case
    using k(1,3,4) unescape_escaped [of "take k query"] unfolding k(2) by blast
qed

end
