(* ===== verification/ExtensionEvents.thy ===== *)
theory ExtensionEvents
  imports Extension Listener HashChain Writer
begin

text \<open>
  What becomes of the events of the extension: the texts of \<open>Extension\<close> as JSON, the documents the
  listener reads from them, and the columns the writer stores.
\<close>

section \<open>The events as JSON\<close>

definition text_or_null :: "string option \<Rightarrow> jtext" where
  "text_or_null p = (case p of None \<Rightarrow> TNull | Some s \<Rightarrow> TString s)"

definition server_tree ::
  "backend \<Rightarrow> clock \<Rightarrow> string \<Rightarrow> bool \<Rightarrow> string \<Rightarrow> string option \<times> string option \<times> string option \<Rightarrow>
     string \<Rightarrow> jtext \<Rightarrow> jtext" where
  "server_tree b t event_type success tag obj query detail =
     TObject
       [(''event_type'', TString event_type), (''event_time'', TString (timebuf t)),
        (''success'', TBool success), (''session_user'', TString (my_user b)), (''client_addr'', TString []),
        (''client_port'', TInt 0), (''database'', TString (percent_s (my_database b))), (''pid'', TInt (my_pid b)),
        (''application'', TString (or_empty (application_name b))), (''command_tag'', TString tag),
        (''object_type'', text_or_null (fst obj)), (''object_name'', text_or_null (fst (snd obj))),
        (''schema_name'', text_or_null (snd (snd obj))), (''query_text'', TString query),
        (''sqlstate'', TString ''00000''), (''detail'', detail)]"

definition utility_tree :: "backend \<Rightarrow> clock \<Rightarrow> stmt_info \<Rightarrow> string \<Rightarrow> bool \<Rightarrow> jtext" where
  "utility_tree b t i query success =
     server_tree b t ''DDL'' success (ddl_tag i) (object_type i, object_name i, schema_name i) query TNull"

definition executor_tree :: "backend \<Rightarrow> clock \<Rightarrow> string \<Rightarrow> string \<Rightarrow> jtext" where
  "executor_tree b t tag query =
     server_tree b t ''DML'' True tag (None, None, None) query (TObject [(''superuser'', TBool True)])"

text \<open>A login: the fields before the name of the user, and those after it.\<close>

definition auth_head :: "clock \<Rightarrow> int \<Rightarrow> (string \<times> jtext) list" where
  "auth_head t status =
     [(''event_type'', TString (if status = status_ok then ''AUTH_SUCCESS'' else ''AUTH_FAIL'')),
      (''event_time'', TString (timebuf t)), (''success'', TBool (status = status_ok))]"

definition auth_tail :: "backend \<Rightarrow> port \<Rightarrow> int \<Rightarrow> (string \<times> jtext) list" where
  "auth_tail b p status =
     [(''client_addr'', TString (or_empty (remote_host p))),
      (''client_port'', TInt (atoi (case remote_port p of Some s \<Rightarrow> s | None \<Rightarrow> ''0''))),
      (''database'', TString (or_empty (database_name p))), (''pid'', TInt (my_pid b)),
      (''application'', TString (or_empty (application_name b))),
      (''command_tag'', TString ''authentication''), (''object_type'', TNull), (''object_name'', TNull),
      (''schema_name'', TNull), (''query_text'', TNull),
      (''sqlstate'', TString (if status = status_ok then ''00000'' else ''28P01'')),
      (''detail'', TObject [(''reason'', TString (if status = status_ok then ''authentication successful''
                                                  else ''password authentication failed''))])]"

definition auth_tree :: "backend \<Rightarrow> clock \<Rightarrow> port \<Rightarrow> int \<Rightarrow> (string \<times> jtext) list \<Rightarrow> jtext" where
  "auth_tree b t p status user = TObject (auth_head t status @ user @ auth_tail b p status)"

section \<open>Lemmas\<close>

subsection \<open>The texts are these trees\<close>

lemma write_text_or_null [simp]: "write_json (text_or_null p) = nullable p"
  by (simp add: text_or_null_def nullable_def quoted_def split: option.splits)

lemma nullable_None [simp]: "nullable None = ''null''"
  by (simp add: nullable_def)

lemma digit_char_0: "digit_char 0 = CHR ''0''"
  by (rule iffD1 [OF of_char_eq_iff [where ?'a = nat]], simp add: digit_char_def)

lemma show_int_0 [simp]: "show_int 0 = ''0''"
  by (simp add: show_int_def show_nat.simps [of 0] digit_char_0)

lemma utility_text: "utility_event_text b t i q s = write_json (utility_tree b t i q s)"
  by (simp add: utility_event_text_def utility_tree_def server_tree_def quoted_def)

lemma executor_text: "executor_event_text b t tag q = write_json (executor_tree b t tag q)"
  by (simp add: executor_event_text_def executor_tree_def server_tree_def quoted_def)

lemma auth_text:
  "auth_event_text b t p status =
     write_json (auth_tree b t p status [(''session_user'', TString (or_empty (user_name p)))])"
  by (simp add: auth_event_text_def auth_tree_def auth_head_def auth_tail_def quoted_def)

text \<open>A user name that closes its string and goes on with fields of its own is written as these
  fields.\<close>

definition forged_user :: "string \<Rightarrow> string" where
\<open>forged_user u = u @ ''","success":true,"event_type":"AUTH_SUCCESS''\<close>

definition forged_fields :: "string \<Rightarrow> (string \<times> jtext) list" where
  "forged_fields u =
     [(''session_user'', TString u), (''success'', TBool True), (''event_type'', TString ''AUTH_SUCCESS'')]"

lemma forged_text:
  assumes "user_name p = Some (forged_user u)"
  shows "auth_event_text b t p status = write_json (auth_tree b t p status (forged_fields u))"
  using assms
  by (simp add: auth_event_text_def auth_tree_def auth_head_def auth_tail_def quoted_def or_empty_def
      forged_user_def forged_fields_def)

subsection \<open>What the trees denote\<close>

definition field_names :: "string list" where
  "field_names =
     [''event_type'', ''event_time'', ''success'', ''session_user'', ''client_addr'', ''client_port'',
      ''database'', ''pid'', ''application'', ''command_tag'', ''object_type'', ''object_name'',
      ''schema_name'', ''query_text'', ''sqlstate'', ''detail'', ''reason'', ''superuser'']"

lemma field_names_plain: "list_all (list_all plain_char) field_names"
  by code_simp

lemma unescape_field_name: "k \<in> set field_names \<Longrightarrow> unescape k = Some k"
  using field_names_plain by (auto simp: list_all_iff intro!: unescape_plain)

definition literal_words :: "string list" where
  "literal_words =
     [''DDL'', ''DML'', ''AUTH_SUCCESS'', ''AUTH_FAIL'', ''00000'', ''28P01'', ''authentication'',
      ''authentication successful'', ''password authentication failed'', ''TABLE'', ''INDEX'', ''SEQUENCE'',
      ''VIEW'', ''FUNCTION'', ''SCHEMA'', ''TRIGGER'', ''EXTENSION'', ''ROLE'', ''UNKNOWN'', ''GRANT'', ''REVOKE'',
      ''SELECT'', ''INSERT'', ''UPDATE'', ''DELETE'', ''CREATE TABLE'', ''CREATE INDEX'', ''CREATE FUNCTION'',
      ''CREATE VIEW'', ''CREATE SCHEMA'', ''CREATE SEQUENCE'', ''CREATE TRIGGER'', ''CREATE EXTENSION'',
      ''ALTER TABLE'', ''RENAME'', ''DROP'', ''GRANT ROLE'', ''CREATE ROLE'', ''ALTER ROLE'', ''DROP ROLE'']"

lemma literal_words_plain: "list_all (list_all plain_char) literal_words"
  by code_simp

lemma plain_word: "w \<in> set literal_words \<Longrightarrow> list_all plain_char w"
  using literal_words_plain by (auto simp: list_all_iff)

lemma unescape_field_names [simp]:
  "unescape ''event_type'' = Some ''event_type''" "unescape ''event_time'' = Some ''event_time''"
  "unescape ''success'' = Some ''success''" "unescape ''session_user'' = Some ''session_user''"
  "unescape ''client_addr'' = Some ''client_addr''" "unescape ''client_port'' = Some ''client_port''"
  "unescape ''database'' = Some ''database''" "unescape ''pid'' = Some ''pid''"
  "unescape ''application'' = Some ''application''" "unescape ''command_tag'' = Some ''command_tag''"
  "unescape ''object_type'' = Some ''object_type''" "unescape ''object_name'' = Some ''object_name''"
  "unescape ''schema_name'' = Some ''schema_name''" "unescape ''query_text'' = Some ''query_text''"
  "unescape ''sqlstate'' = Some ''sqlstate''" "unescape ''detail'' = Some ''detail''"
  "unescape ''reason'' = Some ''reason''" "unescape ''superuser'' = Some ''superuser''"
  by (rule unescape_field_name, simp add: field_names_def)+

lemma list_all_show_nat: "(\<And>d. d < 10 \<Longrightarrow> P (digit_char d)) \<Longrightarrow> list_all P (show_nat n)"
proof (induction n rule: show_nat.induct)
  case (1 n)
  then show ?case by (cases "n < 10") (simp_all add: show_nat.simps [of n])
qed

lemma list_all_timebuf:
  assumes digits: "\<And>d. d < 10 \<Longrightarrow> P (digit_char d)" and others: "list_all P ''-T:.Z''"
  shows "list_all P (timebuf t)"
proof -
  have "list_all P (zero_padded w n)" for w n
    using digits [of 0] list_all_show_nat [of P n, OF digits]
    by (auto simp: zero_padded_def list_all_iff digit_char_0)
  then have "list_all P (zero_padded 4 (clk_year t) @ ''-'' @ zero_padded 2 (clk_month t) @ ''-'' @
      zero_padded 2 (clk_day t) @ ''T'' @ zero_padded 2 (clk_hour t) @ '':'' @ zero_padded 2 (clk_minute t) @
      '':'' @ zero_padded 2 (clk_second t) @ ''.'' @ zero_padded 3 (clk_milli t) @ ''Z'')"
    using others by (simp only: list_all_append list.pred_inject simp_thms)
  then show ?thesis unfolding timebuf_def list_all_iff using set_take_subset by fast
qed

lemma byte_digit_char: "d < 10 \<Longrightarrow> byte (digit_char d) = 48 + d"
  by (simp add: digit_char_def)

lemma plain_timebuf: "list_all plain_char (timebuf t)"
proof (rule list_all_timebuf)
  fix d :: nat
  assume "d < 10"
  then have d: "byte (digit_char d) = 48 + d" by (rule byte_digit_char)
  have "byte dquote = 34" "byte backslash = 92" by (simp_all add: byte_def)
  with d \<open>d < 10\<close> have "digit_char d \<noteq> dquote" "digit_char d \<noteq> backslash" by fastforce+
  with d show "plain_char (digit_char d)" by (simp add: plain_char_def control_def)
qed code_simp

lemma utf8_timebuf: "valid_utf8 (timebuf t)"
proof (rule valid_utf8_ascii_text, rule list_all_timebuf)
  show "byte (digit_char d) < 128" if "d < 10" for d using that by (simp add: byte_digit_char)
qed code_simp

lemma denote_plain: "list_all plain_char s \<Longrightarrow> denote (TString s) = Some (JString s)"
  by (simp add: unescape_plain)

definition string_or_null :: "string option \<Rightarrow> json" where
  "string_or_null p = (case p of None \<Rightarrow> JNull | Some s \<Rightarrow> JString s)"

lemma denote_text_or_null:
  "list_all plain_char (or_empty p) \<Longrightarrow> denote (text_or_null p) = Some (string_or_null p)"
  by (cases p) (simp_all add: text_or_null_def string_or_null_def or_empty_def unescape_plain)

lemma denote_int: "0 \<le> i \<Longrightarrow> i < 2 ^ 31 \<Longrightarrow> denote (TInt i) = Some (JNumber (PosInt (of_int i)))"
  by (simp add: int_value_def)

text \<open>The document of a statement.\<close>

definition server_event ::
  "backend \<Rightarrow> clock \<Rightarrow> string \<Rightarrow> bool \<Rightarrow> string \<Rightarrow> string option \<times> string option \<times> string option \<Rightarrow>
     string \<Rightarrow> json \<Rightarrow> json" where
  "server_event b t event_type success tag obj query detail =
     jobj
       [(''event_type'', JString event_type), (''event_time'', JString (timebuf t)),
        (''success'', JBool success), (''session_user'', JString (my_user b)), (''client_addr'', JString []),
        (''client_port'', JNumber (PosInt 0)), (''database'', JString (percent_s (my_database b))),
        (''pid'', JNumber (PosInt (of_int (my_pid b)))),
        (''application'', JString (or_empty (application_name b))), (''command_tag'', JString tag),
        (''object_type'', string_or_null (fst obj)), (''object_name'', string_or_null (fst (snd obj))),
        (''schema_name'', string_or_null (snd (snd obj))), (''query_text'', JString query),
        (''sqlstate'', JString ''00000''), (''detail'', detail)]"

text \<open>Text that needs no escape.\<close>

definition plain_text :: "string \<Rightarrow> bool" where
  "plain_text s \<longleftrightarrow> list_all plain_char s \<and> valid_utf8 s"

definition plain_backend :: "backend \<Rightarrow> bool" where
  "plain_backend b \<longleftrightarrow>
     plain_text (my_user b) \<and> plain_text (percent_s (my_database b)) \<and> plain_text (or_empty (application_name b)) \<and>
     0 \<le> my_pid b \<and> my_pid b < 2 ^ 31"

definition plain_object :: "string option \<times> string option \<times> string option \<Rightarrow> bool" where
  "plain_object obj \<longleftrightarrow>
     plain_text (or_empty (fst obj)) \<and> plain_text (or_empty (fst (snd obj))) \<and>
     plain_text (or_empty (snd (snd obj)))"

lemma denote_server_tree:
  assumes "plain_backend b" "plain_object obj" "list_all plain_char event_type" "list_all plain_char tag"
    and "unescape body = Some query" and "denote detail = Some d"
  shows "denote (server_tree b t event_type success tag obj body detail) =
    Some (server_event b t event_type success tag obj query d)"
proof -
  have "list_all plain_char ''00000''" by (rule plain_word, simp add: literal_words_def)
  note plain = this [THEN unescape_plain] plain_timebuf [THEN unescape_plain]
    assms(3,4) [THEN unescape_plain] unescape_plain
  show ?thesis
    using assms(1,2)
    by (simp add: server_tree_def server_event_def plain plain_backend_def plain_object_def plain_text_def
        denote_text_or_null denote_int assms(5,6) int_value_def)
qed

lemma utf8_field_names: "list_all (list_all (\<lambda>c. byte c < 128)) (field_names @ literal_words)"
  by code_simp

lemma utf8_word: "w \<in> set field_names \<union> set literal_words \<Longrightarrow> valid_utf8 w"
  using utf8_field_names by (intro valid_utf8_ascii_text) (auto simp: list_all_iff)

lemma utf8_server_tree:
  assumes "plain_backend b" "plain_object obj" "valid_utf8 event_type" "valid_utf8 tag"
    and "valid_utf8 body" "utf8_text detail"
  shows "utf8_text (server_tree b t event_type success tag obj body detail)"
proof -
  have "valid_utf8 ''00000''" by (rule utf8_word, simp add: literal_words_def)
  moreover have "utf8_text (text_or_null p)" if "plain_text (or_empty p)" for p
    using that by (cases p) (simp_all add: text_or_null_def or_empty_def plain_text_def)
  moreover have "\<forall>k \<in> set field_names. valid_utf8 k" using utf8_word by blast
  ultimately show ?thesis
    using assms utf8_timebuf by (simp add: server_tree_def plain_backend_def plain_object_def plain_text_def field_names_def)
qed

text \<open>The columns of a statement's event.\<close>

lemma int4_val_pid: "0 \<le> i \<Longrightarrow> i < 2 ^ 31 \<Longrightarrow> int4_val (JNumber (PosInt (of_int i))) = Some (of_int i)"
proof -
  assume i: "0 \<le> i" "i < 2 ^ 31"
  then have "uint (of_int i :: 64 word) = i" by (simp add: uint_word_of_int)
  then have "unat (of_int i :: 64 word) < 2 ^ 63" using i by (simp add: unat_eq_nat_uint nat_less_iff)
  moreover have "ucast (of_int i :: 64 word) = (of_int i :: 32 word)" by transfer (simp add: take_bit_take_bit)
  ultimately show ?thesis by (simp add: int4_val_def)
qed

lemma str_val_string_or_null: "str_val (string_or_null p) = p"
  by (cases p) (simp_all add: string_or_null_def str_val_def)

lemma columns_of_server_event:
  assumes "plain_backend b"
  shows "columns_of pj (server_event b t event_type success tag obj query d) =
    \<lparr>col_event_type = event_type, col_event_time = timebuf t, col_success = success,
     col_session_user = Some (my_user b), col_client_addr = Some [], col_client_port = Some 0,
     col_database = Some (percent_s (my_database b)), col_pid = Some (of_int (my_pid b)),
     col_application = Some (or_empty (application_name b)), col_command_tag = Some tag,
     col_object_type = fst obj, col_object_name = fst (snd obj), col_schema_name = snd (snd obj),
     col_query_text = Some query, col_sqlstate = Some ''00000'',
     col_detail = (if is_null d then None else Some (pj d)), col_prev_hash = None, col_event_hash = None\<rparr>"
  using assms int4_val_pid [of "my_pid b"]
  by (simp add: columns_of_def server_event_def jget_jobj str_val_string_or_null plain_backend_def
      unwrap_or_else_def) (simp add: str_val_def int4_val_def)

subsection \<open>The size of an event\<close>

text \<open>Names of the server are shorter than \<open>NAMEDATALEN\<close>, which is 64.\<close>

definition short_name :: "string \<Rightarrow> bool" where
  "short_name s \<longleftrightarrow> length s \<le> 63"

definition short_names :: "backend \<Rightarrow> stmt_info \<Rightarrow> bool" where
  "short_names b i \<longleftrightarrow>
     short_name (my_user b) \<and> short_name (percent_s (my_database b)) \<and> short_name (or_empty (application_name b)) \<and>
     short_name (or_empty (object_name i)) \<and> short_name (or_empty (schema_name i))"

lemma length_show_nat: "n < 10 ^ Suc k \<Longrightarrow> length (show_nat n) \<le> Suc k"
proof (induction k arbitrary: n)
  case 0
  then show ?case by (simp add: show_nat.simps [of n])
next
  case (Suc k)
  then have "length (show_nat (n div 10)) \<le> Suc k" by simp
  then show ?case by (simp add: show_nat.simps [of n])
qed

lemma length_show_int: "0 \<le> i \<Longrightarrow> i < 2 ^ 31 \<Longrightarrow> length (show_int i) \<le> 10"
  using length_show_nat [of "nat i" 9] by (simp add: show_int_def nat_less_iff)

lemma length_literal_words: "list_all (\<lambda>w. length w \<le> 30) literal_words"
  by code_simp

lemma stmt_info_words:
  assumes "stmt_info_of s = Some i"
  shows "ddl_tag i \<in> set literal_words" and "or_empty (object_type i) \<in> insert [] (set literal_words)"
proof -
  have "vibe_object_type_str ot \<in> set literal_words" for ot by (cases ot) (simp_all add: literal_words_def)
  moreover have "vibe_node_tag_to_ddl s = Some w \<Longrightarrow> w \<in> set literal_words" for w
    by (cases s) (auto simp: literal_words_def)
  moreover have "''GRANT'' \<in> set literal_words" "''REVOKE'' \<in> set literal_words" "''TABLE'' \<in> set literal_words"
    "''ROLE'' \<in> set literal_words" by (simp_all add: literal_words_def)
  ultimately show "ddl_tag i \<in> set literal_words" and "or_empty (object_type i) \<in> insert [] (set literal_words)"
    using assms
    by (cases s; auto simp: stmt_info_of_def Let_def relation_info_def or_empty_def split: option.splits)+
qed

lemma length_nullable: "length (nullable p) \<le> length (or_empty p) + 4"
  by (cases p) (simp_all add: nullable_def or_empty_def)

lemma length_timebuf: "length (timebuf t) \<le> 63"
  by (simp add: timebuf_def)

lemma utility_text_fits:
  assumes "stmt_info_of s = Some i" and "short_names b i" and "0 \<le> my_pid b" "my_pid b < 2 ^ 31"
  shows "fits_buffer (utility_event_text b t i (vibe_json_escape (vibe_max_event_size div 2) query) success) =
    Some (utility_event_text b t i (vibe_json_escape (vibe_max_event_size div 2) query) success)"
proof -
  let ?q = "vibe_json_escape (vibe_max_event_size div 2) query"
  have q: "length ?q < 4096"
    using escape_loop_prefix [of "the query" 4096 "[]"]
    by (cases query) (auto simp: vibe_json_escape_def vibe_max_event_size_def)
  have words: "length (ddl_tag i) \<le> 30" "length (or_empty (object_type i)) \<le> 30"
    using stmt_info_words [OF assms(1)] length_literal_words by (auto simp: list_all_iff)
  show ?thesis
    using q words assms(2) length_show_int [OF assms(3,4)] length_timebuf [of t]
      length_nullable [of "object_type i"] length_nullable [of "object_name i"] length_nullable [of "schema_name i"]
    by (simp add: fits_buffer_def utility_event_text_def vibe_max_event_size_def short_names_def short_name_def)
qed

section \<open>Properties\<close>

text \<open>A statement whose names need no escape and whose text fits the buffer.\<close>

definition plain_statement :: "backend \<Rightarrow> utility_stmt \<Rightarrow> stmt_info \<Rightarrow> string \<Rightarrow> bool" where
  "plain_statement b s i query \<longleftrightarrow>
     stmt_info_of s = Some i \<and> short_names b i \<and> plain_backend b \<and>
     plain_object (None, object_name i, schema_name i) \<and> valid_utf8 query \<and>
     length (escaped query) < vibe_max_event_size div 2"

lemma vibe_json_escape_fits:
  "length (escaped q) < n \<Longrightarrow> vibe_json_escape n (Some q) = escaped q"
  using escape_loop_prefix [of q n "[]"] by (auto simp: vibe_json_escape_def)

lemma plain_statement_event:
  assumes "plain_statement b s i query"
    and "reads from_slice (utility_tree b t i (escaped query) success)"
  shows "vibe_emit_utility_event_with_status b t (Some s) (Some query) success =
      Some (write_json (utility_tree b t i (escaped query) success))"
    and "from_slice (write_json (utility_tree b t i (escaped query) success)) =
      Some (server_event b t ''DDL'' success (ddl_tag i) (object_type i, object_name i, schema_name i) query JNull)"
proof -
  note plain = assms(1) [unfolded plain_statement_def]
  have pid: "0 \<le> my_pid b" "my_pid b < 2 ^ 31" using plain by (simp_all add: plain_backend_def)
  show "vibe_emit_utility_event_with_status b t (Some s) (Some query) success =
      Some (write_json (utility_tree b t i (escaped query) success))"
    using plain utility_text_fits [of s i b t "Some query" success] pid
    by (simp add: vibe_emit_utility_event_with_status_def vibe_json_escape_fits utility_text)
  have "or_empty (object_type i) \<in> insert [] (set literal_words)"
    using plain stmt_info_words(2) by blast
  then have "plain_text (or_empty (object_type i))"
    using plain_word [of "or_empty (object_type i)"] utf8_word [of "or_empty (object_type i)"]
    by (auto simp: plain_text_def)
  then have obj: "plain_object (object_type i, object_name i, schema_name i)"
    using plain by (simp add: plain_object_def)
  have "''DDL'' \<in> set literal_words" by (simp add: literal_words_def)
  moreover have "ddl_tag i \<in> set literal_words" using plain stmt_info_words(1) by blast
  ultimately have tags: "''DDL'' \<in> set literal_words" "ddl_tag i \<in> set literal_words" .
  have "denote (utility_tree b t i (escaped query) success) =
      Some (server_event b t ''DDL'' success (ddl_tag i) (object_type i, object_name i, schema_name i) query JNull)"
    unfolding utility_tree_def using plain obj tags
    by (intro denote_server_tree plain_word unescape_escaped) simp_all
  moreover have "utf8_text (utility_tree b t i (escaped query) success)"
    unfolding utility_tree_def using plain obj tags utf8_word
    by (intro utf8_server_tree valid_utf8_escaped) auto
  ultimately show "from_slice (write_json (utility_tree b t i (escaped query) success)) =
      Some (server_event b t ''DDL'' success (ddl_tag i) (object_type i, object_name i, schema_name i) query JNull)"
    using assms(2) by (simp add: reads_def)
qed


text \<open>C27: No statement is lost for the size of its event: with names as long as the server allows, the event of every
  statement that has a tag is sent, however long the query is.\<close>

theorem statement_event_always_fits:
  assumes "stmt_info_of s = Some i" and "short_names b i" and "0 \<le> my_pid b" and "my_pid b < 2 ^ 31"
  shows "\<exists>text. vibe_emit_utility_event_with_status b t (Some s) query success = Some text \<and>
    length text < vibe_max_event_size"
  using utility_text_fits [OF assms, of t query success] assms(1)
  by (auto simp: vibe_emit_utility_event_with_status_def fits_buffer_def split: if_splits)

text \<open>While the receiver cannot take datagrams, the extension falls back to the server log after
  ten failures in a row; the first nine events are in neither place, and on a full socket buffer only the
  number of failures is logged, never an event.\<close>

lemma at_threshold_of_nat: "n < 2 ^ 31 \<Longrightarrow> at_threshold (of_nat n) \<longleftrightarrow> 10 \<le> n"
proof -
  assume "n < 2 ^ 31"
  then have "sint (of_nat n :: 32 word) = int n" by (simp add: signed_of_nat signed_take_bit_int_eq_self)
  then show ?thesis by (simp add: at_threshold_def fail_threshold_def)
qed

lemma emit_all_errors:
  "n + length texts < 2 ^ 31 \<Longrightarrow>
   snd (emit_all \<lparr>socket_open = True, udp_addr = a, consecutive_failures = of_nat n\<rparr> (map (Pair Send_error) texts)) =
     map Log_event (drop (9 - n) texts)"
proof (induction texts arbitrary: n)
  case (Cons u texts)
  have at: "at_threshold (of_nat n + 1) \<longleftrightarrow> 9 \<le> n"
    using at_threshold_of_nat [of "Suc n"] Cons.prems by (simp add: add.commute)
  have IH: "snd (emit_all \<lparr>socket_open = True, udp_addr = a, consecutive_failures = of_nat n + 1\<rparr>
      (map (Pair Send_error) texts)) = map Log_event (drop (9 - Suc n) texts)"
    using Cons.IH [of "Suc n"] Cons.prems by (simp add: add.commute)
  show ?case
    using IH at
    by (cases "n < 9") (auto simp: vibe_emit_event_def Let_def split_beta Suc_diff_Suc drop_Cons')
qed simp

lemma emit_all_blocked:
  "n + length texts < 2 ^ 31 \<Longrightarrow>
   snd (emit_all \<lparr>socket_open = True, udp_addr = a, consecutive_failures = of_nat n\<rparr> (map (Pair Would_block) texts)) =
     map (\<lambda>k. Log_failures (of_nat k)) [max 10 (Suc n)..<Suc (n + length texts)]"
proof (induction texts arbitrary: n)
  case (Cons u texts)
  have at: "at_threshold (of_nat n + 1) \<longleftrightarrow> 9 \<le> n"
    using at_threshold_of_nat [of "Suc n"] Cons.prems by (simp add: add.commute)
  have IH: "snd (emit_all \<lparr>socket_open = True, udp_addr = a, consecutive_failures = of_nat n + 1\<rparr>
      (map (Pair Would_block) texts)) =
      map (\<lambda>k. Log_failures (of_nat k)) [max 10 (Suc (Suc n))..<Suc (n + length (u # texts))]"
    using Cons.IH [of "Suc n"] Cons.prems by (simp add: add.commute)
  show ?case
  proof (cases "n < 9")
    case True
    then have "max 10 (Suc (Suc n)) = max 10 (Suc n)" by simp
    with IH True at show ?thesis by (simp add: vibe_emit_event_def Let_def split_beta)
  next
    case False
    then have "max 10 (Suc n) = Suc n" "max 10 (Suc (Suc n)) = Suc (Suc n)" by simp_all
    moreover have "[Suc n..<Suc (n + length (u # texts))] =
        Suc n # [Suc (Suc n)..<Suc (n + length (u # texts))]"
      by (rule upt_conv_Cons) simp
    ultimately show ?thesis
      using IH False at by (simp add: vibe_emit_event_def Let_def split_beta add.commute del: upt_Suc)
  qed
qed simp

theorem udp_fallback:
  assumes "length texts < 2 ^ 31"
  shows "snd (emit_all (vibe_init_socket inet_pton cfg True) (map (Pair Send_error) texts)) =
      map Log_event (drop 9 texts) \<and>
    snd (emit_all (vibe_init_socket inet_pton cfg True) (map (Pair Would_block) texts)) =
      map (\<lambda>k. Log_failures (of_nat k)) [10..<Suc (length texts)]"
  using emit_all_errors [of 0 texts] emit_all_blocked [of 0 texts] assms by (simp add: vibe_init_socket_def)

theorem udp_fallback_witness:
  "snd (emit_all (vibe_init_socket (\<lambda>_. Some 0) default_audit_settings True)
     (map (Pair Send_error) (replicate 10 ''e''))) = [Log_event ''e'']"
  using udp_fallback [of "replicate 10 ''e''" "\<lambda>_. Some 0" default_audit_settings] by simp


text \<open>The queries of superusers, in the mode \<open>emit\<close> only.\<close>

theorem query_event_columns:
  assumes "plain_backend b" and "short_name (my_user b)" and "short_name (percent_s (my_database b))"
    and "short_name (or_empty (application_name b))" and "valid_utf8 query"
    and "length (escaped query) < vibe_max_event_size div 2"
    and "reads from_slice (executor_tree b t (cmd_tag op) (escaped query))"
  shows "vibe_executor_end_hook cfg b t superuser (Some \<lparr>operation = op, source_text = Some query\<rparr>) =
      (if audit_enabled cfg \<and> executor_mode cfg = Some ''emit'' \<and> superuser
       then Some (write_json (executor_tree b t (cmd_tag op) (escaped query))) else None) \<and>
    (\<exists>event. from_slice (write_json (executor_tree b t (cmd_tag op) (escaped query))) = Some event \<and>
       col_event_type (columns_of pj event) = ''DML'' \<and> col_success (columns_of pj event) \<and>
       col_command_tag (columns_of pj event) = Some (cmd_tag op) \<and>
       col_query_text (columns_of pj event) = Some query \<and>
       col_client_addr (columns_of pj event) = Some [])"
proof -
  let ?tree = "executor_tree b t (cmd_tag op) (escaped query)"
  have word: "cmd_tag op \<in> set literal_words" "''DML'' \<in> set literal_words" "length (cmd_tag op) \<le> 30"
    by (cases op; simp add: literal_words_def)+
  have pid: "0 \<le> my_pid b" "my_pid b < 2 ^ 31" using assms(1) by (simp_all add: plain_backend_def)
  have "length (executor_event_text b t (cmd_tag op) (escaped query)) < vibe_max_event_size"
    using assms(2-4,6) word(3) length_show_int [OF pid] length_timebuf [of t]
    by (simp add: executor_event_text_def vibe_max_event_size_def short_name_def)
  moreover have "0 < length (executor_event_text b t (cmd_tag op) (escaped query))"
    by (simp add: executor_event_text_def)
  ultimately have sent: "vibe_emit_executor_event b t (Some \<lparr>operation = op, source_text = Some query\<rparr>) =
      Some (write_json ?tree)"
    by (simp add: vibe_emit_executor_event_def fits_buffer_def vibe_json_escape_fits [OF assms(6)] executor_text)
  have none: "plain_object (None, None, None)" by (simp add: plain_object_def plain_text_def or_empty_def)
  have detail: "denote (TObject [(''superuser'', TBool True)]) = Some (jobj [(''superuser'', JBool True)])" by simp
  have "denote ?tree =
      Some (server_event b t ''DML'' True (cmd_tag op) (None, None, None) query (jobj [(''superuser'', JBool True)]))"
    unfolding executor_tree_def
    by (intro denote_server_tree plain_word word unescape_escaped detail assms(1) none)
  moreover have "utf8_text ?tree"
    unfolding executor_tree_def
    using assms(1,5) none utf8_word [of "cmd_tag op"] utf8_word [of "''DML''"] word(1,2)
      utf8_word [of "''superuser''"]
    by (intro utf8_server_tree valid_utf8_escaped) (simp_all add: field_names_def)
  ultimately show ?thesis
    using sent assms(7) columns_of_server_event [OF assms(1)]
    by (simp add: vibe_executor_end_hook_def reads_def)
qed

subsection \<open>Names are not escaped\<close>

definition plain_login :: "backend \<Rightarrow> port \<Rightarrow> bool" where
  "plain_login b p \<longleftrightarrow>
     plain_text (or_empty (remote_host p)) \<and> plain_text (or_empty (database_name p)) \<and>
     plain_text (or_empty (application_name b)) \<and> 0 \<le> my_pid b \<and> my_pid b < 2 ^ 31 \<and>
     0 \<le> atoi (case remote_port p of Some s \<Rightarrow> s | None \<Rightarrow> ''0'') \<and>
     atoi (case remote_port p of Some s \<Rightarrow> s | None \<Rightarrow> ''0'') < 2 ^ 31"

lemma words_plain_text: "w \<in> set literal_words \<Longrightarrow> plain_text w"
  using plain_word utf8_word by (simp add: plain_text_def)

lemma login_words:
  "plain_text ''AUTH_SUCCESS''" "plain_text ''AUTH_FAIL''" "plain_text ''00000''" "plain_text ''28P01''"
  "plain_text ''authentication''" "plain_text ''authentication successful''"
  "plain_text ''password authentication failed''"
  by (rule words_plain_text, simp add: literal_words_def)+

lemma denote_plain_text: "plain_text s \<Longrightarrow> denote (TString s) = Some (JString s)"
  by (simp add: plain_text_def unescape_plain)

lemma utf8_field: "k \<in> set field_names \<Longrightarrow> valid_utf8 k"
  using utf8_word by blast

lemma denote_auth_head:
  "denote_members (auth_head t status @ ms) =
     map_option ((@) [(''event_type'', JString (if status = status_ok then ''AUTH_SUCCESS'' else ''AUTH_FAIL'')),
       (''event_time'', JString (timebuf t)), (''success'', JBool (status = status_ok))]) (denote_members ms)"
  using login_words(1,2) [THEN denote_plain_text] plain_timebuf [THEN unescape_plain]
  by (simp add: auth_head_def split: option.split)

lemma denote_auth_tail:
  assumes "plain_login b p"
  shows "\<exists>kvs. denote_members (auth_tail b p status) = Some kvs \<and>
    map_of (rev kvs) ''event_type'' = None \<and> map_of (rev kvs) ''success'' = None \<and>
    map_of (rev kvs) ''session_user'' = None \<and>
    map_of (rev kvs) ''sqlstate'' = Some (JString (if status = status_ok then ''00000'' else ''28P01''))"
  using assms login_words [THEN denote_plain_text]
  by (cases "status = status_ok")
    (simp_all add: auth_tail_def plain_login_def plain_text_def unescape_plain int_value_def)

lemma utf8_auth_tree:
  assumes "plain_login b p" and "\<forall>kt \<in> set user. valid_utf8 (fst kt) \<and> utf8_text (snd kt)"
  shows "utf8_text (auth_tree b t p status user)"
proof -
  have "\<forall>k \<in> set field_names. valid_utf8 k" using utf8_field by blast
  then show ?thesis
    using assms login_words utf8_timebuf
    by (auto simp: auth_tree_def auth_head_def auth_tail_def plain_login_def plain_text_def field_names_def)
qed

text \<open>C16: A login that failed is stored as one that succeeded, when the client sends a user name that
  closes its string and goes on with fields: the last of two equal keys decides.\<close>

theorem failed_login_forged:
  assumes "status \<noteq> status_ok" and "user_name p = Some (forged_user u)" and "plain_text u" and "plain_login b p"
    and "vibe_client_auth_hook cfg b t p status = Some text"
    and "reads from_slice (auth_tree b t p status (forged_fields u))"
  shows "\<exists>event. from_slice text = Some event \<and>
    col_event_type (columns_of pj event) = ''AUTH_SUCCESS'' \<and> col_success (columns_of pj event) \<and>
    col_session_user (columns_of pj event) = Some u \<and> col_sqlstate (columns_of pj event) = Some ''28P01''"
proof -
  have written: "text = write_json (auth_tree b t p status (forged_fields u))"
    using assms(5) forged_text [OF assms(2)]
    by (auto simp: vibe_client_auth_hook_def vibe_emit_auth_event_def fits_buffer_def split: if_splits)
  obtain kvs where kvs: "denote_members (auth_tail b p status) = Some kvs" "map_of (rev kvs) ''event_type'' = None"
      "map_of (rev kvs) ''success'' = None" "map_of (rev kvs) ''session_user'' = None"
      "map_of (rev kvs) ''sqlstate'' = Some (JString ''28P01'')"
    using denote_auth_tail [OF assms(4), of status] assms(1) by auto
  have user: "denote_members (forged_fields u @ auth_tail b p status) =
      Some ([(''session_user'', JString u), (''success'', JBool True), (''event_type'', JString ''AUTH_SUCCESS'')] @ kvs)"
    using kvs(1) assms(3) login_words(1) by (simp add: forged_fields_def plain_text_def unescape_plain)
  let ?head = "[(''event_type'', JString (if status = status_ok then ''AUTH_SUCCESS'' else ''AUTH_FAIL'')),
      (''event_time'', JString (timebuf t)), (''success'', JBool (status = status_ok))]"
  have denote: "denote (auth_tree b t p status (forged_fields u)) = Some (jobj (?head @
      [(''session_user'', JString u), (''success'', JBool True), (''event_type'', JString ''AUTH_SUCCESS'')] @ kvs))"
    by (simp add: auth_tree_def denote_auth_head user)
  have "utf8_text (auth_tree b t p status (forged_fields u))"
    using assms(3) login_words(1) utf8_field [of "''session_user''"] utf8_field [of "''success''"]
      utf8_field [of "''event_type''"]
    by (intro utf8_auth_tree [OF assms(4)]) (auto simp: forged_fields_def plain_text_def field_names_def)
  with assms(6) have "from_slice text = denote (auth_tree b t p status (forged_fields u))"
    by (simp add: reads_def written denote)
  then show ?thesis
    using kvs by (simp add: denote columns_of_def jget_jobj str_val_def unwrap_or_else_def map_add_def)
qed

subsection \<open>Cutting a query\<close>

definition broken :: "string \<Rightarrow> bool" where
  "broken s \<longleftrightarrow> (\<exists>x l a y. s = x @ l # a # y \<and> lead_byte l \<and> byte a < 128)"

lemma broken_invalid: "broken s \<Longrightarrow> \<not> valid_utf8 s"
  by (auto simp: broken_def broken_character)

lemma broken_prepend: "broken s \<Longrightarrow> broken (x @ s)"
  unfolding broken_def by (metis append.assoc)

lemma broken_here: "lead_byte l \<Longrightarrow> byte a < 128 \<Longrightarrow> broken ((x @ [l]) @ (a # y) @ z)"
  unfolding broken_def by (intro exI [of _ x] exI [of _ l] exI [of _ a] exI [of _ "y @ z"]) simp

lemma escape_loop_append:
  "length dst + length (escaped x) < n \<Longrightarrow>
     escape_loop n dst (x @ y) = escape_loop n (dst @ escaped x) y"
proof (induction x arbitrary: dst)
  case (Cons c x)
  then show ?case using length_escape_byte_ge [of c] by (simp add: escape_loop_step)
qed simp

lemma escape_loop_cut:
  assumes "length (escaped x) + 2 = n" and "lead_byte l"
  shows "escape_loop n [] (x @ l # rest) = escaped x @ [l]"
proof -
  have "escape_byte l = [l]" using assms(2) by (intro escape_byte_plain high_byte_plain) (simp add: lead_byte_def)
  moreover have "escape_loop n (escaped x @ [l]) rest = escaped x @ [l]"
  proof (cases rest)
    case (Cons c cs)
    then show ?thesis using length_escape_byte_ge [of c] assms(1) by (simp add: escape_loop_step)
  qed simp
  ultimately show ?thesis using assms(1) escape_loop_append [of "[]" x n "l # rest"] by (simp add: escape_loop_step)
qed

text \<open>C38: A query is cut at the end of the buffer, inside a character if one stands there. The event is not
  UTF-8 then, no JSON, and the listener drops it: a statement that starts with comment text of the right
  length leaves no trace.\<close>

theorem cut_query_unseen:
  assumes "stmt_info_of s = Some i" and "short_names b i" and "0 \<le> my_pid b" and "my_pid b < 2 ^ 31"
    and "length (escaped x) + 2 = vibe_max_event_size div 2" and "lead_byte l"
    and "\<forall>d. \<not> valid_utf8 d \<longrightarrow> from_slice d = None"
  shows "\<exists>text. vibe_emit_utility_event_with_status b t (Some s) (Some (x @ l # rest)) success = Some text \<and>
    listener_run from_slice open_for [Inr text] = ([], Listening)"
proof -
  let ?text = "utility_event_text b t i (escaped x @ [l]) success"
  have "vibe_json_escape (vibe_max_event_size div 2) (Some (x @ l # rest)) = escaped x @ [l]"
    by (simp add: vibe_json_escape_def escape_loop_cut [OF assms(5,6)])
  then have sent: "vibe_emit_utility_event_with_status b t (Some s) (Some (x @ l # rest)) success = Some ?text"
    and fits: "fits_buffer ?text = Some ?text"
    using utility_text_fits [OF assms(1-4), of t "Some (x @ l # rest)" success] assms(1)
    by (simp_all add: vibe_emit_utility_event_with_status_def)
  have "broken ?text"
    unfolding utility_event_text_def using assms(6)
    by (intro broken_here broken_prepend) (simp_all add: byte_def)
  then have "from_slice ?text = None" using assms(7) broken_invalid by blast
  moreover have "length ?text < vibe_max_event_size" using fits by (simp add: fits_buffer_def split: if_splits)
  ultimately have "listener_run from_slice open_for [Inr ?text] = ([], Listening)"
    by (simp add: vibe_max_event_size_def recv_buffer_def)
  with sent show ?thesis by blast
qed

section \<open>Examples\<close>

definition sample_backend :: backend where
  "sample_backend = \<lparr>my_user = ''alice'', my_database = Some ''app'', my_pid = 42, application_name = None\<rparr>"

definition sample_clock :: clock where
  "sample_clock = \<lparr>clk_year = 2026, clk_month = 1, clk_day = 2, clk_hour = 3, clk_minute = 4, clk_second = 5,
     clk_milli = 6\<rparr>"

definition sample_info :: stmt_info where
  "sample_info = \<lparr>ddl_tag = ''DROP'', object_type = Some ''TABLE'', object_name = None, schema_name = None\<rparr>"

definition sample_query :: string where
  "sample_query = ''DROP TABLE t''"

definition sample_port :: port where
  "sample_port = \<lparr>user_name = Some (forged_user ''eve''), database_name = Some ''app'', remote_host = Some ''10.0.0.1'',
     remote_port = Some ''5000''\<rparr>"

text \<open>A parser that knows one text.\<close>

definition reads_one :: "jtext \<Rightarrow> string \<Rightarrow> json option" where
  "reads_one t d = (if d = write_json t then denote t else None)"

lemma reads_one_reads: "reads (reads_one t) t"
  by (simp add: reads_def reads_one_def)

lemma sample_names:
  "plain_text ''alice''" "plain_text ''app''" "plain_text ''eve''" "plain_text ''10.0.0.1''" "plain_text sample_query"
  by code_simp+

lemma plain_text_Nil: "plain_text []"
  by (simp add: plain_text_def)

lemma sample_plain_backend: "plain_backend sample_backend"
  using sample_names by (simp add: plain_backend_def sample_backend_def or_empty_def plain_text_Nil)

lemma sample_statement: "plain_statement sample_backend (DropStmt OBJECT_TABLE) sample_info sample_query"
proof -
  have "stmt_info_of (DropStmt OBJECT_TABLE) = Some sample_info"
    by (simp add: stmt_info_of_def sample_info_def)
  moreover have "short_names sample_backend sample_info"
    by (simp add: short_names_def short_name_def sample_backend_def sample_info_def or_empty_def)
  moreover have "plain_object (None, object_name sample_info, schema_name sample_info)"
    by (simp add: plain_object_def sample_info_def or_empty_def plain_text_Nil)
  moreover have "escaped sample_query = sample_query"
    using sample_names(5) by (simp add: plain_text_def escaped_plain)
  moreover have "length sample_query < 4096" by (simp add: sample_query_def)
  ultimately show ?thesis
    using sample_plain_backend sample_names(5)
    by (simp add: plain_statement_def vibe_max_event_size_def plain_text_def)
qed

theorem escape_round_trip_witness:
  "unescape (vibe_json_escape 4096 (Some [dquote, backslash, CHR 0x0A, CHR 0x01])) =
     Some [dquote, backslash, CHR 0x0A, CHR 0x01]"
proof -
  have "length (escaped [dquote, backslash, CHR 0x0A, CHR 0x01]) < 4096" by code_simp
  then show ?thesis
    using escape_round_trip [of 4096 "[dquote, backslash, CHR 0x0A, CHR 0x01]"] by auto
qed


theorem statement_event_always_fits_witness:
  "\<exists>text. vibe_emit_utility_event_with_status sample_backend sample_clock (Some (DropStmt OBJECT_TABLE))
     (Some (replicate 10000 (CHR ''x''))) True = Some text \<and> length text < vibe_max_event_size"
  using sample_statement
  by (intro statement_event_always_fits [of _ sample_info]) (simp_all add: plain_statement_def sample_backend_def)


theorem failed_login_forged_witness:
  "\<exists>text event. vibe_client_auth_hook default_audit_settings sample_backend sample_clock sample_port (-1) = Some text \<and>
     reads_one (auth_tree sample_backend sample_clock sample_port (-1) (forged_fields ''eve'')) text = Some event \<and>
     col_event_type (columns_of (\<lambda>_. []) event) = ''AUTH_SUCCESS'' \<and> col_success (columns_of (\<lambda>_. []) event)"
proof -
  have "atoi ''5000'' = 5000" by code_simp
  then have login: "plain_login sample_backend sample_port"
    using sample_names by (simp add: plain_login_def sample_port_def sample_backend_def or_empty_def plain_text_Nil)
  have "length (show_int 42) \<le> 10" "length (show_int 5000) \<le> 10" by (simp_all add: length_show_int)
  then have "vibe_client_auth_hook default_audit_settings sample_backend sample_clock sample_port (-1) =
      Some (auth_event_text sample_backend sample_clock sample_port (-1))"
    using length_timebuf [of sample_clock] \<open>atoi ''5000'' = 5000\<close>
    by (simp add: vibe_client_auth_hook_def default_audit_settings_def vibe_emit_auth_event_def fits_buffer_def
        auth_event_text_def vibe_max_event_size_def sample_port_def sample_backend_def or_empty_def forged_user_def
        status_ok_def)
  moreover have "user_name sample_port = Some (forged_user ''eve'')" by (simp add: sample_port_def)
  moreover have "(-1::int) \<noteq> status_ok" by (simp add: status_ok_def)
  ultimately show ?thesis
    using failed_login_forged [OF _ _ sample_names(3) login _ reads_one_reads, of "-1"
        default_audit_settings sample_clock _ "\<lambda>_. []"] by blast
qed

theorem cut_query_unseen_witness:
  "\<exists>text. vibe_emit_utility_event_with_status sample_backend sample_clock (Some (DropStmt OBJECT_TABLE))
       (Some (replicate 4094 (CHR ''x'') @ [CHR 0xC3, CHR 0xA9])) True = Some text \<and>
     listener_run (\<lambda>d. if valid_utf8 d then Some JNull else None) (\<lambda>_. True) [Inr text] = ([], Listening)"
proof -
  have "plain_char (CHR ''x'')" by code_simp
  then have "length (escaped (replicate 4094 (CHR ''x''))) + 2 = vibe_max_event_size div 2"
    by (simp add: escaped_plain list_all_iff vibe_max_event_size_def)
  then show ?thesis
    using sample_statement
    by (intro cut_query_unseen [of _ sample_info])
      (simp_all add: plain_statement_def sample_backend_def lead_byte_def byte_def)
qed

end
