(* ===== verification/SampleRun.thy ===== *)
theory SampleRun
  imports Forwarder
begin

text \<open>
  A concrete run of the forwarder, for the examples that show the statements about runs apply: one
  datagram is accepted, processed and written, or refused by the database.
\<close>

definition sample_services :: "(unit, unit, unit) services" where
  "sample_services =
     \<lparr>sv_hash = (\<lambda>s. ''h'' @ s), sv_print = (\<lambda>_. []), sv_to_vec = (\<lambda>_. Inr []),
      sv_gz_write = (\<lambda>_. Inr ()), sv_gz_finish = (\<lambda>_. Inr []), sv_send_to = (\<lambda>_ _. Inr 0),
      sv_gelf = \<lparr>gf_target = (), gf_hostname = ''audit''\<rparr>\<rparr>"

definition sample_event :: json where
  "sample_event = JObject [(''event_time'', JString ''t''), (''event_type'', JString ''DDL'')]"

text \<open>The listener binds its port, and one datagram is accepted, processed and written: the states after
  these four steps.\<close>

definition sample_serving :: fw_state where
  "sample_serving = (start_state ''ssn'')\<lparr>fw_listener := Serving\<rparr>"

definition sample_queued :: fw_state where
  "sample_queued = enqueue sample_event sample_serving"

definition sample_processed :: fw_state where
  "sample_processed = sample_queued
     \<lparr>fw_channel := [],
      fw_proc := the (processor_event sample_services (Inr () :: pool_answer) (\<lambda>_ _ _. Inr 1) new_processor sample_event)\<rparr>"

definition sample_written :: fw_state where
  "sample_written = sample_processed
     \<lparr>fw_proc := processor_tick sample_services (Inr () :: pool_answer) (\<lambda>_ _ _. Inr 1) (fw_proc sample_processed)\<rparr>"

lemma sample_serving_facts:
  "fw_running sample_serving" "fw_listener sample_serving = Serving" "fw_channel sample_serving = []"
  "fw_proc sample_serving = new_processor" "fw_accepted sample_serving = []"
  by (simp_all add: sample_serving_def start_state_def)

lemma sample_serving_reach: "reach (fw_start ''ssn'') (fw_step sv parse) sample_serving"
proof -
  have "fw_step sv parse (start_state ''ssn'') sample_serving"
    unfolding sample_serving_def by (rule listener_bound) (simp_all add: start_state_def)
  moreover have "reach (fw_start ''ssn'') (fw_step sv parse) (start_state ''ssn'')"
    by (rule reach_start) (simp add: fw_start_def)
  ultimately show ?thesis by (rule reach_step [rotated])
qed

lemma sample_reach:
  "reach (fw_start ''ssn'') (fw_step sample_services (\<lambda>_. Some sample_event)) sample_queued"
  "reach (fw_start ''ssn'') (fw_step sample_services (\<lambda>_. Some sample_event)) sample_written"
  "(fw_step sample_services (\<lambda>_. Some sample_event))\<^sup>*\<^sup>* sample_queued sample_written"
proof -
  let ?step = "fw_step sample_services (\<lambda>_. Some sample_event)"
  have "?step sample_serving sample_queued"
    unfolding sample_queued_def by (rule udp_accept) (simp_all add: sample_serving_facts channel_capacity_def)
  with sample_serving_reach show queued: "reach (fw_start ''ssn'') ?step sample_queued" by (rule reach_step)
  have "processor_event sample_services (Inr () :: pool_answer) (\<lambda>_ _ _. Inr 1) new_processor sample_event \<noteq> None"
    by (simp add: processor_event_None sample_event_def)
  then have one: "?step sample_queued sample_processed"
    unfolding sample_processed_def
    by (intro process [where event = sample_event and pool_get = "Inr ()" and execute = "\<lambda>_ _ _. Inr 1"])
      (auto simp: sample_queued_def sample_serving_facts enqueue_def)
  have two: "?step sample_processed sample_written"
    unfolding sample_written_def
    by (rule tick) (simp add: sample_processed_def sample_queued_def sample_serving_facts enqueue_def)
  show run: "?step\<^sup>*\<^sup>* sample_queued sample_written"
    using one two by (blast intro: converse_rtranclp_into_rtranclp)
  show "reach (fw_start ''ssn'') ?step sample_written" by (rule reach_run [OF run queued])
qed

text \<open>The same run with a database that refuses the statement: the event waits for a retry.\<close>

definition sample_failed :: fw_state where
  "sample_failed = sample_processed
     \<lparr>fw_proc := processor_tick sample_services (Inr () :: pool_answer) (\<lambda>_ _ _. Inl ''down'') (fw_proc sample_processed)\<rparr>"

lemma sample_written_facts:
  "fw_running sample_written" "lossless (fw_proc sample_written)"
  "pr_received (fw_proc sample_written) = [sample_event]" "length (stored (fw_proc sample_written)) = 1"
  by code_simp+

lemma sample_failed_facts:
  "fw_running sample_failed" "fw_channel sample_failed = []" "pr_batch (fw_proc sample_failed) = []"
  "length (retry_queue (pr_writer (fw_proc sample_failed))) = 1"
  by code_simp+

end
