(* ===== verification/AuditLog.thy ===== *)
theory AuditLog
  imports SampleRun
begin

text \<open>
  The abstract contract of the forwarder: an audit log. It knows no batch, no retry queue and no
  counters, only the events accepted so far, those of them that wait, the log, what of it is stored,
  and whether it is open. \<open>log_of\<close> reads a state of the forwarder as one of the log, and the
  forwarder refines the log: each of its steps is at most two steps of the log, so every run is a run
  of the log. What holds of every log then holds of every run.
  The second half shows how events reach the writer: \<open>drained\<close> is what the processor makes of a
  state when it empties the channel and then ticks, with any answers of the database. A retry queue
  alone waits for new traffic.
\<close>

section \<open>The audit log\<close>

record audit_log =
  al_accepted :: "json list"
  al_waiting :: "json list"
  al_log :: "json list"
  al_stored :: "json list"
  al_open :: bool

text \<open>An event becomes the next entry of a log: linked to the entries before it, and otherwise as it
  was accepted.\<close>

definition next_entry :: "(string \<Rightarrow> string) \<Rightarrow> json list \<Rightarrow> json \<Rightarrow> json \<Rightarrow> bool" where
  "next_entry H log event entry \<longleftrightarrow>
     chained H [] (log @ [entry]) \<and>
     (\<forall>k. k \<noteq> ''prev_hash'' \<longrightarrow> k \<noteq> ''event_hash'' \<longrightarrow> jget entry k = jget event k)"

definition log_start :: "audit_log \<Rightarrow> bool" where
  "log_start a \<longleftrightarrow> a = \<lparr>al_accepted = [], al_waiting = [], al_log = [], al_stored = [], al_open = True\<rparr>"

inductive log_step :: "(string \<Rightarrow> string) \<Rightarrow> audit_log \<Rightarrow> audit_log \<Rightarrow> bool"
  for H :: "string \<Rightarrow> string"
where
  log_accept:
    "al_open a \<Longrightarrow> log_step H a (a\<lparr>al_accepted := al_accepted a @ [event], al_waiting := al_waiting a @ [event]\<rparr>)"
| log_append:
    "al_open a \<Longrightarrow> al_waiting a = event # events \<Longrightarrow> next_entry H (al_log a) event entry \<Longrightarrow>
     log_step H a (a\<lparr>al_waiting := events, al_log := al_log a @ [entry]\<rparr>)"
| log_store:
    "al_open a \<Longrightarrow> subseq (al_stored a @ rows) (al_log a) \<Longrightarrow>
     log_step H a (a\<lparr>al_stored := al_stored a @ rows\<rparr>)"
| log_close:
    "al_open a \<Longrightarrow> al_waiting a = event # events \<Longrightarrow> \<not> is_null event \<Longrightarrow> \<not> is_object event \<Longrightarrow>
     log_step H a (a\<lparr>al_waiting := events, al_open := False\<rparr>)"
| log_shutdown:
    "al_open a \<Longrightarrow> log_step H a (a\<lparr>al_open := False\<rparr>)"

inductive_simps log_step_closed: "log_step H (a\<lparr>al_open := False\<rparr>) b"

definition log_inv :: "(string \<Rightarrow> string) \<Rightarrow> audit_log \<Rightarrow> bool" where
  "log_inv H a \<longleftrightarrow> chained H [] (al_log a) \<and> subseq (al_stored a) (al_log a)"

lemma log_step_inv: "log_step H a b \<Longrightarrow> log_inv H a \<Longrightarrow> log_inv H b"
  by (induction rule: log_step.induct)
    (auto simp: log_inv_def next_entry_def intro: subseq_extend [where bs = "[]", simplified])

interpretation log: inductive_invariant log_start "log_step H" "log_inv H" for H
  by unfold_locales (simp add: log_start_def log_inv_def, rule log_step_inv)

text \<open>A log only grows.\<close>

lemma log_step_grows:
  "log_step H a b \<Longrightarrow> prefix (al_accepted a) (al_accepted b) \<and> prefix (al_log a) (al_log b) \<and>
     prefix (al_stored a) (al_stored b)"
  by (induction rule: log_step.induct) simp_all

lemma log_run_grows:
  "(log_step H)\<^sup>*\<^sup>* a b \<Longrightarrow> prefix (al_accepted a) (al_accepted b) \<and> prefix (al_log a) (al_log b) \<and>
     prefix (al_stored a) (al_stored b)"
proof (induction rule: rtranclp_induct)
  case base
  then show ?case by simp
next
  case (step b c)
  then show ?case using log_step_grows [of H b c] by (blast intro: prefix_order.trans)
qed

section \<open>The forwarder refines it\<close>

definition log_of :: "fw_state \<Rightarrow> audit_log" where
  "log_of s =
     \<lparr>al_accepted = fw_accepted s, al_waiting = fw_channel s, al_log = pr_chained (fw_proc s), al_stored = stored (fw_proc s),
      al_open = fw_running s\<rparr>"

lemma processor_event_entry:
  assumes ev: "processor_event sv pg ex p event = Some p'" and inv: "chain_inv (sv_hash sv) p"
  obtains entry where "pr_chained p' = pr_chained p @ [entry]"
    and "next_entry (sv_hash sv) (pr_chained p) event entry"
    and "\<exists>rows. stored p' = stored p @ rows"
  using ev
proof (rule processor_event_absorb)
  fix c event' pv h out
  assume app: "chain_apply (sv_hash sv) (pr_chain p) event = Some (c, event', pv, h)"
    and p': "p' = (if length (pr_batch p) + 1 \<ge> batch_limit
           then flush_batch sv pg ex (absorb p event c event' out) else absorb p event c event' out)"
  have all: "chain_all (sv_hash sv) new_chain (pr_received p) = Some (pr_chain p, pr_chained p)"
    using inv by (simp add: chain_inv_def)
  have "chained (sv_hash sv) [] (pr_chained p @ [event'])"
    using chain_all_chained [OF chain_all_snoc [OF all app]] by (simp add: new_chain_def)
  then have entry: "next_entry (sv_hash sv) (pr_chained p) event event'"
    by (simp add: next_entry_def chain_apply_Some(5) [OF app])
  have chained: "pr_chained p' = pr_chained p @ [event']"
    by (simp add: p' absorb_def flush_batch_def split: prod.split)
  have "\<exists>rows. stored p' = stored p @ rows"
    by (auto simp: p' absorb_def flush_batch_def stored_def split: prod.split)
  with chained entry show thesis by (rule that)
qed

lemma tick_stored: "\<exists>rows. stored (processor_tick sv pg ex p) = stored p @ rows"
  by (auto simp: processor_tick_def flush_batch_def stored_def split: prod.split)

lemma tick_chained: "pr_chained (processor_tick sv pg ex p) = pr_chained p"
  by (simp add: processor_tick_def flush_batch_def split: prod.split)

lemma log_store_run:
  assumes "al_open a" and "b = a\<lparr>al_stored := al_stored a @ rows\<rparr>" and "subseq (al_stored b) (al_log b)"
  shows "(log_step H)\<^sup>*\<^sup>* a b"
  using assms by (auto intro!: r_into_rtranclp log_store)

lemma fw_step_log:
  "fw_step sv parse s t \<Longrightarrow> fw_inv (sv_hash sv) s \<Longrightarrow> (log_step (sv_hash sv))\<^sup>*\<^sup>* (log_of s) (log_of t)"
proof (induction rule: fw_step.induct)
  case (udp_accept s d event)
  then have "log_step (sv_hash sv) (log_of s) (log_of (enqueue event s))"
    using log_accept [of "log_of s" "sv_hash sv" event] by (simp add: log_of_def enqueue_def)
  then show ?case by blast
next
  case (wal_send s event)
  then show ?case
    using log_accept [of "log_of s" "sv_hash sv" event] by (simp add: log_of_def enqueue_def r_into_rtranclp)
next
  case (process s event events pool_get execute p)
  let ?t = "s\<lparr>fw_channel := events, fw_proc := p\<rparr>"
  have "chain_inv (sv_hash sv) (fw_proc s)" using process by (simp add: fw_inv_def proc_inv_def)
  with process(3) obtain entry rows where
      chained: "pr_chained p = pr_chained (fw_proc s) @ [entry]"
    and entry: "next_entry (sv_hash sv) (pr_chained (fw_proc s)) event entry"
    and rows: "stored p = stored (fw_proc s) @ rows"
    by (rule processor_event_entry) blast
  let ?a = "(log_of s)\<lparr>al_waiting := events, al_log := al_log (log_of s) @ [entry]\<rparr>"
  have "log_step (sv_hash sv) (log_of s) ?a"
    using process(1,2) entry by (intro log_append) (simp_all add: log_of_def)
  moreover have "order_inv p"
    using processor_event_inv [OF process(3)] process(1,4) by (auto simp: fw_inv_def stop_inv_def proc_inv_def)
  then have "subseq (stored p) (pr_chained p)"
    unfolding order_inv_def by (blast intro: subseq_order.order_trans list_emb_append2 subseq_rev_drop_many)
  then have "(log_step (sv_hash sv))\<^sup>*\<^sup>* ?a (log_of ?t)"
    using process(1) by (intro log_store_run [where rows = rows]) (simp_all add: log_of_def chained rows)
  ultimately show ?case by (rule converse_rtranclp_into_rtranclp)
next
  case (process_panic s event events pool_get execute)
  have "\<not> is_null event" "\<not> is_object event"
    using process_panic(3) by (simp_all add: processor_event_None)
  then have "log_step (sv_hash sv) (log_of s) (log_of (s\<lparr>fw_channel := events, fw_proc := processor_panic event (fw_proc s), fw_running := False\<rparr>))"
    using log_close [of "log_of s" event events "sv_hash sv"] process_panic(1,2) by (simp add: log_of_def)
  then show ?case by blast
next
  case (tick s pool_get execute)
  let ?p = "processor_tick sv pool_get execute (fw_proc s)"
  obtain rows where rows: "stored ?p = stored (fw_proc s) @ rows" using tick_stored by blast
  have "order_inv ?p" using tick_inv [of "sv_hash sv" "fw_proc s" sv pool_get execute] tick(2) by (simp add: fw_inv_def proc_inv_def)
  then have "subseq (stored ?p) (pr_chained ?p)"
    unfolding order_inv_def by (blast intro: subseq_order.order_trans list_emb_append2 subseq_rev_drop_many)
  then show ?case
    using tick(1) by (intro log_store_run [where rows = rows]) (simp_all add: log_of_def tick_chained rows)
next
  case (listener_unbound s)
  then show ?case using log_shutdown [of "log_of s" "sv_hash sv"] by (simp add: log_of_def r_into_rtranclp)
next
  case (health_ended s)
  then show ?case using log_shutdown [of "log_of s" "sv_hash sv"] by (simp add: log_of_def r_into_rtranclp)
qed (simp_all add: log_of_def)

interpretation log_refinement: refinement "fw_start csv" "fw_step sv parse" "fw_inv (sv_hash sv)"
  log_start "log_step (sv_hash sv)" log_of for csv sv parse
proof unfold_locales
  show "log_start (log_of s)" if "fw_start csv s" for s
    using that by (simp add: fw_start_def start_state_def log_start_def log_of_def new_processor_def stored_def)
qed (rule fw_step_log)

section \<open>Reaching the writer\<close>

text \<open>What the processor makes of the events of the channel, with a tick of the flush timer at the end;
  \<open>pg n\<close> and \<open>ex n\<close> are the answers of the database while \<open>n\<close> events are left.\<close>

fun process_all ::
  "('e, 'enc, 'addr) services \<Rightarrow> (nat \<Rightarrow> pool_answer) \<Rightarrow> (nat \<Rightarrow> execute_answer) \<Rightarrow> json list \<Rightarrow>
   processor \<Rightarrow> processor" where
  "process_all sv pg ex [] p = processor_tick sv (pg 0) (ex 0) p"
| "process_all sv pg ex (e # es) p =
     (case processor_event sv (pg (Suc (length es))) (ex (Suc (length es))) p e of
        Some p' \<Rightarrow> process_all sv pg ex es p'
      | None \<Rightarrow> processor_panic e p)"

definition drained ::
  "('e, 'enc, 'addr) services \<Rightarrow> (nat \<Rightarrow> pool_answer) \<Rightarrow> (nat \<Rightarrow> execute_answer) \<Rightarrow> fw_state \<Rightarrow> fw_state" where
  "drained sv pg ex s = s\<lparr>fw_channel := [], fw_proc := process_all sv pg ex (fw_channel s) (fw_proc s)\<rparr>"

text \<open>A call that gets a connection loses no event while the queue and the batch fit the capacity.\<close>

lemma flush_lossless:
  assumes "\<not> isl pg" and "lossless p" and "length (pending p) \<le> max_retry"
  shows "lossless (flush_batch sv pg ex p)" and "length (pending (flush_batch sv pg ex p)) \<le> length (pending p)"
proof -
  obtain w out where wb: "write_batch (sv_print sv) pg ex (pr_writer p) (pr_batch p) = (w, out)"
    by (cases "write_batch (sv_print sv) pg ex (pr_writer p) (pr_batch p)")
  have "keeps_all out"
    using wb assms(1,3)
    by (cases pg) (auto simp: write_batch_def Let_def pending_def split: if_splits sum.splits)
  then show "lossless (flush_batch sv pg ex p)"
    using assms(2) by (simp add: flush_batch_def wb lossless_def)
  have "length (outcome_rows out @ retry_queue w) \<le> length (retry_queue (pr_writer p) @ pr_batch p)"
    using write_batch_order(1) [OF wb] assms(3) by (intro list_emb_length) (simp add: pending_def)
  then show "length (pending (flush_batch sv pg ex p)) \<le> length (pending p)"
    by (simp add: flush_batch_def wb pending_def)
qed

lemma tick_lossless:
  "\<not> isl pg \<Longrightarrow> lossless p \<Longrightarrow> length (pending p) \<le> max_retry \<Longrightarrow> lossless (processor_tick sv pg ex p)"
  by (simp add: processor_tick_def flush_lossless)

lemma event_lossless:
  assumes "processor_event sv pg ex p event = Some p'" and "\<not> isl pg" and "lossless p"
    and "length (pending p) < max_retry"
  shows "lossless p' \<and> length (pending p') \<le> Suc (length (pending p))"
  using assms(1)
proof (rule processor_event_absorb)
  fix c event' pv h out
  let ?q = "absorb p event c event' out"
  assume p': "p' = (if length (pr_batch p) + 1 \<ge> batch_limit then flush_batch sv pg ex ?q else ?q)"
  have "lossless ?q" and "length (pending ?q) = Suc (length (pending p))"
    using assms(3) by (simp_all add: absorb_def lossless_def pending_def)
  then show ?thesis using flush_lossless [OF assms(2), of ?q sv ex] assms(4) by (simp add: p')
qed

lemma process_all_total:
  assumes "\<forall>e \<in> set es. is_null e \<or> is_object e"
  shows "pr_received (process_all sv pg ex es p) = pr_received p @ es \<and>
    pr_panicked (process_all sv pg ex es p) = pr_panicked p \<and> pr_batch (process_all sv pg ex es p) = [] \<and>
    ((\<forall>n. \<not> isl (pg n)) \<and> lossless p \<and> length (pending p) + length es \<le> max_retry \<longrightarrow>
       lossless (process_all sv pg ex es p))"
  using assms
proof (induction es arbitrary: p)
  case Nil
  have "pr_batch (processor_tick sv (pg 0) (ex 0) p) = []"
    by (simp add: processor_tick_def flush_batch_def split: prod.split)
  then show ?case using tick_lossless [of "pg 0" p sv "ex 0"] by simp
next
  case (Cons e es)
  let ?n = "Suc (length es)"
  obtain p' where p': "processor_event sv (pg ?n) (ex ?n) p e = Some p'"
    using Cons.prems processor_event_None [of sv "pg ?n" "ex ?n" p e]
    by (cases "processor_event sv (pg ?n) (ex ?n) p e") auto
  show ?case
    using Cons.IH [of p'] Cons.prems p' processor_event_received [OF p'] event_lossless [OF p'] by auto
qed

lemma drained_run:
  assumes "fw_running s" and "\<forall>e \<in> set (fw_channel s). is_null e \<or> is_object e"
  shows "(fw_step sv parse)\<^sup>*\<^sup>* s (drained sv pg ex s)"
  using assms
proof (induction "fw_channel s" arbitrary: s)
  case Nil
  then have "drained sv pg ex s = s\<lparr>fw_proc := processor_tick sv (pg 0) (ex 0) (fw_proc s)\<rparr>"
    by (simp add: drained_def)
  then show ?case using tick [OF Nil.prems(1), of sv parse "pg 0" "ex 0"] by (simp add: r_into_rtranclp)
next
  case (Cons event events)
  let ?n = "Suc (length events)"
  note ch = Cons.hyps(2) [symmetric]
  obtain p' where p': "processor_event sv (pg ?n) (ex ?n) (fw_proc s) event = Some p'"
    using Cons.prems(2) processor_event_None [of sv "pg ?n" "ex ?n" "fw_proc s" event] ch
    by (cases "processor_event sv (pg ?n) (ex ?n) (fw_proc s) event") auto
  let ?s1 = "s\<lparr>fw_channel := events, fw_proc := p'\<rparr>"
  have "fw_step sv parse s ?s1" using process [OF Cons.prems(1) ch p'] .
  moreover have "(fw_step sv parse)\<^sup>*\<^sup>* ?s1 (drained sv pg ex ?s1)"
    using Cons.hyps(1) [of ?s1] Cons.prems ch by simp
  moreover have "drained sv pg ex ?s1 = drained sv pg ex s" by (simp add: drained_def ch p')
  ultimately show ?case by (simp add: converse_rtranclp_into_rtranclp)
qed

text \<open>All that is known of the state after the processor has emptied the channel.\<close>

lemma drained_facts:
  fixes s :: fw_state and pg :: "nat \<Rightarrow> pool_answer" and ex :: "nat \<Rightarrow> execute_answer"
  assumes "reach (fw_start csv) (fw_step sv parse) s" and "fw_running s"
    and "\<forall>e \<in> set (fw_channel s). is_null e \<or> is_object e"
  defines "t \<equiv> drained sv pg ex s"
  shows "(fw_step sv parse)\<^sup>*\<^sup>* s t" and "fw_running t" and "fw_channel t = []" and "pr_batch (fw_proc t) = []"
    and "fw_accepted t = fw_accepted s" and "pr_received (fw_proc t) = fw_accepted s"
    and "chain_all (sv_hash sv) new_chain (fw_accepted s) = Some (pr_chain (fw_proc t), pr_chained (fw_proc t))"
    and "lossless (fw_proc t) \<Longrightarrow> pr_chained (fw_proc t) = stored (fw_proc t) @ retry_queue (pr_writer (fw_proc t))"
    and "\<forall>n. \<not> isl (pg n) \<Longrightarrow> lossless (fw_proc s) \<Longrightarrow>
      length (pending (fw_proc s)) + length (fw_channel s) \<le> max_retry \<Longrightarrow> lossless (fw_proc t)"
proof -
  show run: "(fw_step sv parse)\<^sup>*\<^sup>* s t" unfolding t_def by (rule drained_run [OF assms(2,3)])
  have inv: "fw_inv (sv_hash sv) s" "fw_inv (sv_hash sv) t"
    using fw.reach_inv [OF assms(1)] fw.reach_inv [OF reach_run [OF run assms(1)]] by blast+
  have panic: "panicked_events (fw_proc s) = []" using inv(1) assms(2) by (simp add: fw_inv_defs panicked_events_def)
  note all = process_all_total [OF assms(3), of sv pg ex "fw_proc s"]
  show "fw_running t" "fw_channel t = []" "fw_accepted t = fw_accepted s" "pr_batch (fw_proc t) = []"
    using assms(2) all by (simp_all add: t_def drained_def)
  show received: "pr_received (fw_proc t) = fw_accepted s"
    using all inv(1) panic by (simp add: t_def drained_def fw_inv_def channel_inv_def)
  with inv(2) show "chain_all (sv_hash sv) new_chain (fw_accepted s) = Some (pr_chain (fw_proc t), pr_chained (fw_proc t))"
    by (simp add: fw_inv_def proc_inv_def chain_inv_def)
  show "lossless (fw_proc t) \<Longrightarrow> pr_chained (fw_proc t) = stored (fw_proc t) @ retry_queue (pr_writer (fw_proc t))"
    using inv(2) \<open>pr_batch (fw_proc t) = []\<close> by (simp add: fw_inv_def proc_inv_def order_inv_def pending_def)
  show "\<forall>n. \<not> isl (pg n) \<Longrightarrow> lossless (fw_proc s) \<Longrightarrow>
      length (pending (fw_proc s)) + length (fw_channel s) \<le> max_retry \<Longrightarrow> lossless (fw_proc t)"
    using all by (simp add: t_def drained_def)
qed

section \<open>Properties\<close>

text \<open>C1: The forwarder refines the audit log. Every run it can make, by any interleaving of its tasks and
  with any answers of the database, is a run of the abstract log from the image of its first state to
  the image of its last: events are accepted at the end, become the next linked entry in order, are
  stored in the order of the log, and an event that cannot be linked, or the end of a task, closes
  it.\<close>

theorem forwarder_refines_log:
  assumes "reach (fw_start csv) (fw_step sv parse) s" and "(fw_step sv parse)\<^sup>*\<^sup>* s t"
  shows "log_start (log_of (start_state csv)) \<and> reach log_start (log_step (sv_hash sv)) (log_of s) \<and>
    (log_step (sv_hash sv))\<^sup>*\<^sup>* (log_of s) (log_of t)"
  using log_refinement.abs_start [of csv "start_state csv"] log_refinement.reach_abs [OF assms(1)]
    log_refinement.run_abs [OF assms(2) fw.reach_inv [OF assms(1)]]
  by (simp add: fw_start_def)

theorem forwarder_refines_log_witness:
  "(log_step (\<lambda>s. ''h'' @ s))\<^sup>*\<^sup>* (log_of sample_queued) (log_of sample_written)"
  using forwarder_refines_log [OF sample_reach(1,3)] by (simp add: sample_services_def)



text \<open>C8: Accepted events do not get stuck before the writer. From every reachable running state whose
  channel holds only objects and \<open>null\<close>, the processor can, whatever the database answers to each
  statement, take all accepted events from the channel and hand all of them to the writer: the channel
  and the batch are then empty, and while no write has lost events each accepted event is stored or in
  the retry queue, in the order of the chain. If no write had lost events before, none does on this way
  provided that every call gets a connection and all that waits fits the retry queue, even if the
  database refuses every statement.\<close>

theorem accepted_events_reach_writer:
  assumes "reach (fw_start csv) (fw_step sv parse) s" and "fw_running s"
    and "\<forall>e \<in> set (fw_channel s). is_null e \<or> is_object e"
  shows "\<exists>t :: fw_state. t = drained sv pool_get execute s \<and> (fw_step sv parse)\<^sup>*\<^sup>* s t \<and> fw_running t \<and>
    fw_channel t = [] \<and> pr_batch (fw_proc t) = [] \<and>
    fw_accepted t = fw_accepted s \<and> pr_received (fw_proc t) = fw_accepted s \<and>
    (lossless (fw_proc t) \<longrightarrow>
      pr_chained (fw_proc t) = stored (fw_proc t) @ retry_queue (pr_writer (fw_proc t)) \<and>
      length (stored (fw_proc t)) + length (retry_queue (pr_writer (fw_proc t))) = length (fw_accepted s)) \<and>
    ((\<forall>n. \<not> isl (pool_get n)) \<and> lossless (fw_proc s) \<and>
       length (retry_queue (pr_writer (fw_proc s))) + length (pr_batch (fw_proc s)) + length (fw_channel s) \<le> 10000 \<longrightarrow>
     lossless (fw_proc t))"
proof (intro exI [of _ "drained sv pool_get execute s"] conjI refl)
  note facts = drained_facts [OF assms, of pool_get execute]
  show "lossless (fw_proc (drained sv pool_get execute s)) \<longrightarrow>
      pr_chained (fw_proc (drained sv pool_get execute s)) =
        stored (fw_proc (drained sv pool_get execute s)) @ retry_queue (pr_writer (fw_proc (drained sv pool_get execute s))) \<and>
      length (stored (fw_proc (drained sv pool_get execute s))) +
        length (retry_queue (pr_writer (fw_proc (drained sv pool_get execute s)))) = length (fw_accepted s)"
    using facts(8) chain_all_frame [OF facts(7)] by auto
  show "(\<forall>n. \<not> isl (pool_get n)) \<and> lossless (fw_proc s) \<and>
       length (retry_queue (pr_writer (fw_proc s))) + length (pr_batch (fw_proc s)) + length (fw_channel s) \<le> 10000 \<longrightarrow>
     lossless (fw_proc (drained sv pool_get execute s))"
    using facts(9) by (simp add: pending_def max_retry_def)
qed (use drained_facts [OF assms, of pool_get execute] in blast)+

theorem accepted_events_reach_writer_witness:
  "\<exists>t :: fw_state. (fw_step sample_services (\<lambda>_. Some sample_event))\<^sup>*\<^sup>* sample_queued t \<and>
     length (stored (fw_proc t)) + length (retry_queue (pr_writer (fw_proc t))) = 1"
proof -
  have "fw_channel sample_queued = [sample_event]" "fw_accepted sample_queued = [sample_event]"
    "fw_running sample_queued" "fw_proc sample_queued = new_processor" "is_object sample_event"
    by (simp_all add: sample_queued_def enqueue_def sample_serving_facts sample_event_def)
  then show ?thesis
    using accepted_events_reach_writer [OF sample_reach(1), of "\<lambda>_. Inr ()" "\<lambda>_ _ _ _. Inl ''down''"]
    by (auto simp: new_processor_def lossless_def new_writer_def)
qed

text \<open>A retry queue waits for traffic. While the channel and the batch are empty no step but the
  acceptance of a new event changes the retry queue or the stored events: the flush timer does
  nothing for an empty batch, so failed events stay unwritten for as long as no new one arrives.\<close>

theorem retries_wait_for_traffic:
  assumes "(fw_step sv parse)\<^sup>*\<^sup>* s t" and "fw_channel s = []" and "pr_batch (fw_proc s) = []"
    and "length (fw_accepted t) = length (fw_accepted s)"
  shows "retry_queue (pr_writer (fw_proc t)) = retry_queue (pr_writer (fw_proc s)) \<and>
    stored (fw_proc t) = stored (fw_proc s)"
proof -
  have accepted: "length (fw_accepted a) \<le> length (fw_accepted b)" if "fw_step sv parse a b" for a b
    using that by (induction rule: fw_step.induct) (simp_all add: enqueue_def)
  have still: "fw_channel b = [] \<and> fw_proc b = fw_proc a"
    if "fw_step sv parse a b" "fw_channel a = []" "pr_batch (fw_proc a) = []"
      "length (fw_accepted b) = length (fw_accepted a)" for a b
    using that by (induction rule: fw_step.induct) (simp_all add: enqueue_def processor_tick_def)
  have "length (fw_accepted s) \<le> length (fw_accepted t) \<and>
      (length (fw_accepted t) = length (fw_accepted s) \<longrightarrow> fw_channel t = [] \<and> fw_proc t = fw_proc s)"
    using assms(1)
  proof (induction rule: rtranclp_induct)
    case base
    then show ?case using assms(2) by simp
  next
    case (step a b)
    then show ?case using accepted [OF step.hyps(2)] still [OF step.hyps(2)] assms(3) by auto
  qed
  with assms(4) show ?thesis by simp
qed

theorem retries_wait_for_traffic_witness:
  "length (retry_queue (pr_writer (fw_proc (sample_failed
     \<lparr>fw_proc := processor_tick sample_services (Inr () :: pool_answer) (\<lambda>_ _ _. Inr 1) (fw_proc sample_failed)\<rparr>)))) = 1"
proof -
  let ?t = "sample_failed
     \<lparr>fw_proc := processor_tick sample_services (Inr () :: pool_answer) (\<lambda>_ _ _. Inr 1) (fw_proc sample_failed)\<rparr>"
  have "(fw_step sample_services (\<lambda>_. None))\<^sup>*\<^sup>* sample_failed ?t"
    by (rule r_into_rtranclp, rule tick, rule sample_failed_facts(1))
  then show ?thesis
    using retries_wait_for_traffic [of sample_services "\<lambda>_. None" sample_failed ?t] sample_failed_facts
    by simp
qed

end
