(* ===== verification/Pipeline.thy ===== *)
theory Pipeline
  imports ExtensionEvents AuditLog
begin

text \<open>
  From the statement to the writer: the extension of \<open>Extension\<close> in front of the forwarder of
  \<open>Forwarder\<close>. A datagram the hook sends is received by a step of the system, and by further steps its
  event is chained and handed to the writer.
\<close>

section \<open>Lemmas\<close>

lemma chain_all_last:
  "chain_all H c (es @ [e]) = Some (c', es') \<Longrightarrow>
     \<exists>es1 e' c1 c2 p h. es' = es1 @ [e'] \<and> chain_apply H c1 e = Some (c2, e', p, h)"
proof (induction es arbitrary: c es')
  case Nil
  then have "chain_all H c (e # []) = Some (c', es')" by (simp only: append_Nil)
  then obtain c1 e1 p h es1 where "chain_apply H c e = Some (c1, e1, p, h)" "chain_all H c1 [] = Some (c', es1)"
      "es' = e1 # es1"
    by (rule chain_all_Cons_Some)
  then show ?case by auto
next
  case (Cons a es)
  then have "chain_all H c (a # es @ [e]) = Some (c', es')" by (simp only: append_Cons)
  then obtain c1 e1 p h es1 where "chain_all H c1 (es @ [e]) = Some (c', es1)" "es' = e1 # es1"
    by (rule chain_all_Cons_Some)
  with Cons.IH [of c1 es1] show ?case by (metis append_Cons)
qed

text \<open>Chaining changes the two columns of the hashes only.\<close>

lemma columns_of_chained:
  assumes "chain_apply H c e = Some (c', e', p, h)"
  shows "columns_of pj e' = (columns_of pj e)\<lparr>col_prev_hash := Some p, col_event_hash := Some h\<rparr>"
  using chain_apply_Some(5) [OF assms] by (simp add: columns_of_def str_val_def)

section \<open>Properties\<close>



end
