(* ===== verification/Spec2Isabelle.thy ===== *)
theory Spec2Isabelle
  imports WalEvents Startup Partitions SqlTypes UnitTests Pipeline
begin

text \<open>
  Verification of vibe-audit: the forwarder (\<open>forwarder/src/\<close>, Rust), a sidecar that receives audit
  events of PostgreSQL over UDP and from the write-ahead log, chains them with SHA-256 hashes, writes
  them to \<open>vibe_audit.events\<close> in batches, and forwards them over GELF; and the extension of the server
  (\<open>ext/\<close>, C and SQL) that sends these events and checks the stored chain.

  \<^bold>\<open>The program and its parts.\<close> \<open>main.rs\<close> starts the tasks and a channel of 10,000 events between them.
  The UDP listener and the WAL worker send events into the channel; the processor takes them out one
  by one, chains each, counts it, forwards it, and collects a batch that it writes when it has 100
  events or at a tick of one second. A failed write goes to a retry queue of 10,000 events, which the
  next write puts in front of its batch. The WAL worker turns a row of \<open>test_decoding\<close> text into an
  event, comparing the old and the new document of the row and masking the sensitive fields; the
  registry of these fields is refreshed from the database. A heartbeat and a health endpoint read the
  counters. The database function \<open>verify_chain\<close> recomputes the chain over the stored rows, and
  \<open>ensure_partition\<close> creates the partition of a month. The extension hooks logins, statements and
  queries, and sends one JSON text per event as a datagram.

  \<^bold>\<open>The theories.\<close>
  \<^item> \<open>Prelude\<close>: the interfaces (keyed containers, a buffer that drops its oldest element, invariants of
    a transition system) with the facts proved from their laws; \<open>RustStr\<close>: the string operations of
    Rust's library; \<open>Json\<close>: JSON values, objects, indexing, assignment and equality.
  \<^item> \<open>HashChain\<close> (\<open>hashchain.rs\<close>): \<open>chain_apply\<close> is \<open>HashChain::apply\<close>; \<open>chained\<close> says what a chain is.
  \<^item> \<open>Writer\<close> (\<open>writer.rs\<close>): \<open>write_batch\<close> with the statement it builds, \<open>push_retry\<close> and
    \<open>enqueue_retries\<close>, \<open>ensure_partition\<close>; \<open>bound_columns\<close> says what the statement binds.
  \<^item> \<open>ChainVerify\<close> (\<open>ext/vibe_audit--1.1.sql\<close>): the stored rows and \<open>verify_chain\<close>.
  \<^item> \<open>Sensitive\<close> (\<open>sensitive.rs\<close>): \<open>new_registry\<close>, \<open>refresh_cache\<close>, \<open>detect\<close>, \<open>redact\<close>,
    \<open>diff_fields\<close>, \<open>all_fields\<close>.
  \<^item> \<open>WalCapture\<close> (\<open>walcapture.rs\<close>): the line parser, the documents, the event, the polling loop and its
    restarts, each row with the registry in force when it is parsed. \<open>WalFormat\<close> specifies the text
    format, quoted identifiers included, and proves for which rows the parser inverts it;
    \<open>WalEvents\<close> proves what an event shows and what the worker hands on.
  \<^item> \<open>Gelf\<close> (\<open>gelf.rs\<close>), \<open>Health\<close> (\<open>health.rs\<close>), \<open>Listener\<close> (\<open>listener.rs\<close>), \<open>Settings\<close> (the
    environment variables of \<open>main.rs\<close>).
  \<^item> \<open>Forwarder\<close> (\<open>main.rs\<close>): the processor, and \<open>fw_step\<close>, one step of one task, with the invariant of
    the whole system \<open>fw_inv\<close>. The listener and the health server bind their ports by steps of their
    own, and the run ends when one of them or the processor ends. This theory draws the consequences
    for every reachable state. \<open>AuditLog\<close> is the specification of the system as a log and the refinement
    of it by \<open>fw_step\<close>, and \<open>drained\<close>, the processor emptying the channel;
    \<open>SampleRun\<close> is a run for the examples. \<open>Startup\<close> is the start and the end of \<open>main\<close>.
  \<^item> \<open>SqlTypes\<close> (\<open>writer.rs\<close> against the table): the types of the parameters and of their placeholders;
    \<open>Partitions\<close> (\<open>ext/vibe_audit--1.1.sql\<close>): \<open>ensure_partition\<close> and the place of a row.
  \<^item> \<open>Extension\<close> (\<open>ext/vibe_hooks.c\<close>, \<open>vibe_emit.c\<close>, \<open>vibe_audit.c\<close>): escaping, the texts of the events,
    the socket and the hooks. \<open>JsonText\<close> says what a JSON text denotes; \<open>ExtensionEvents\<close> follows the
    events through the listener to the columns of the writer, and \<open>Pipeline\<close> through the whole system
    to the writer.
  \<^item> \<open>UnitTests\<close>: the unit tests of the Rust files, which hold of the model.

  \<^bold>\<open>What is proved.\<close> Stored rows verify in every run that loses no write and receives only events
  with a type and a time in the format of \<open>verify_chain\<close> (an event without these breaks the stored
  chain at its row); tampering with a hashed
  column is found and located, or gives a hash collision; events are neither duplicated nor
  reordered, and none is lost while writes keep them; all queues are bounded and the counters exact.
  The statement of a batch names, numbers and binds every column of every event as it should. The
  parser reads back the rows whose types are one word and whose values have single spaces and no quote
  at the end; for these rows, with names that are not quoted, detection and redaction are exact, and a
  globally configured name is masked in every INSERT captured in any run. The forwarder refines an
  append-only log, and every accepted event can still reach the writer, whatever the database answers.
  The partitions of the months do not overlap. What the extension escapes is read back, its events fit
  their buffer, and the event of a statement arrives as the columns of that statement.
  Some properties state limits of the code: a JSON value that is neither an object nor \<open>null\<close> stops
  the forwarder; the chain starts anew at every start of the process; a failing pool discards the
  retry queue; too long a queue, or one event the database refuses, blocks the writer while every
  call gets a connection; columns whose type name has several words are dropped, and a value that ends
  with a quote carries the next column in clear; a name printed between double quotes keeps them, so
  it is not the configured one; paths inside a JSONB column are never redacted; retries wait for new
  traffic; a driver that checks parameter types refuses every insert; the events of
  statements carry an address that is none and block the writer; a user name can forge a login, and
  a query cut inside a character leaves no trace.

  \<^bold>\<open>Conventions.\<close> A string is the list of its UTF-8 bytes. A panic is \<open>None\<close>. Errors are the left side
  of a sum. Counters are \<open>64 word\<close> and the parameter counter is \<open>32 word\<close>, so they wrap; the statements
  about them are modulo \<open>2^64\<close>, and \<open>insert_statement_binds\<close> carries its bound. No definition uses
  fuel: every loop is a recursion on the input that is left (\<open>parse_parts\<close> by a measure), the endless
  loops are recursions on the script of answers they get, or steps of \<open>fw_step\<close>. The buffers of the
  extension keep their sizes (8192 for an event, 4096 for a query, 64 for a time).

  \<^bold>\<open>What is not modelled.\<close> SHA-256, the parsing and printing of JSON text, compression, sockets, the
  connection pool, the database and the clock are parameters; what a property assumes of one is a
  hypothesis of it (\<open>reads\<close> for the parser on the texts of the extension). \<open>Json\<close> states the documented
  behaviour of \<open>serde_json::Value\<close>. Parse trees, names and the execution of statements are input of the
  hooks; the Windows branches of the extension are left out, and \<open>ext/vibe_tags.c\<close> has no code. Logging,
  the HTTP server, the remaining SQL (indexes, grants, the tables of the registry, the script of the
  earlier version), and the build and deployment files are left out. Time is not modelled: intervals
  are steps that may happen at any moment. A step of the processor is atomic (its counters can be read
  only between two of them), and after the end of a task no other takes a step, although \<open>main\<close> needs a
  moment to return. The sessions of the database have one time zone, and a \<open>CREATE\<close> of a partition that
  fails is left out.
\<close>

section \<open>The stored chain\<close>

lemma reach_proc:
  assumes "reach (fw_start csv) (fw_step sv parse) s"
  shows "chain_inv (sv_hash sv) (fw_proc s)" and "count_inv (fw_proc s)" and "queue_inv (fw_proc s)"
    and "order_inv (fw_proc s)" and "channel_inv s" and "wal_inv s" and "stop_inv s"
  using fw.reach_inv [OF assms] by (simp_all add: fw_inv_def proc_inv_def)

text \<open>C2: End to end: at every point of every run, whatever the interleaving of the tasks, if no write
  has lost events and every event received has a string as its type and as its time the text that
  \<open>verify_chain\<close> prints for the stored timestamp (UTC with milliseconds), the rows in the database
  pass \<open>verify_chain\<close>, all of them, under whatever ids the sequence has drawn for them.\<close>

theorem stored_rows_verify:
  assumes "reach (fw_start csv) (fw_step sv parse) s" and "lossless (fw_proc s)"
    and "\<forall>e \<in> set (pr_received (fw_proc s)). storable to_ts fmt e"
    and "drawn_ids ids (stored (fw_proc s))"
  shows "verify_chain (sv_hash sv) fmt (rows_of to_ts (sv_print sv) ids (stored (fw_proc s))) =
    \<lparr>checked_count = length (stored (fw_proc s)), valid = True, first_broken_id = None\<rparr>"
proof -
  let ?p = "fw_proc s"
  have all: "chain_all (sv_hash sv) new_chain (pr_received ?p) = Some (pr_chain ?p, pr_chained ?p)"
    using reach_proc(1) [OF assms(1)] by (simp add: chain_inv_def)
  have split: "pr_chained ?p = stored ?p @ pending ?p"
    using reach_proc(4) [OF assms(1)] assms(2) by (simp add: order_inv_def)
  have "chained (sv_hash sv) [] (stored ?p)"
    using chain_all_chained [OF all] by (simp add: new_chain_def split chained_append)
  moreover have "\<forall>e \<in> set (stored ?p). storable to_ts fmt e"
    using chain_all_storable [OF all, of to_ts fmt] assms(3) by (simp add: split ball_Un)
  ultimately show ?thesis by (rule chained_verifies [OF assms(4)])
qed

theorem stored_rows_verify_witness:
  "verify_chain (\<lambda>s. ''h'' @ s) id (rows_of id (\<lambda>_. []) [3] (stored (fw_proc sample_written))) =
     \<lparr>checked_count = 1, valid = True, first_broken_id = None\<rparr>"
proof -
  have "\<forall>e \<in> set (pr_received (fw_proc sample_written)). storable id id e"
    by (simp add: sample_written_facts storable_def sample_event_def jget_def obj_get_Cons)
  moreover have "drawn_ids [3] (stored (fw_proc sample_written))"
    using sample_written_facts(4) by (simp add: drawn_ids_def)
  ultimately have "verify_chain (sv_hash sample_services) id
      (rows_of id (sv_print sample_services) [3] (stored (fw_proc sample_written))) =
    \<lparr>checked_count = length (stored (fw_proc sample_written)), valid = True, first_broken_id = None\<rparr>"
    by (rule stored_rows_verify [OF sample_reach(2) sample_written_facts(2)])
  then show ?thesis by (simp add: sample_written_facts(4)) (simp add: sample_services_def)
qed

section \<open>Order, loss and bounds\<close>

text \<open>C6: In every run the processor takes the accepted events in the order they were accepted, chains
  each of them once, and the rows, the retry queue and the batch together hold chained events in
  chain order, none of them twice. At most one accepted event is in neither the chain nor the channel,
  the one the processor panicked at, and none while the forwarder runs.\<close>

theorem events_in_order:
  assumes "reach (fw_start csv) (fw_step sv parse) s"
  shows "fw_accepted s = pr_received (fw_proc s) @ panicked_events (fw_proc s) @ fw_channel s \<and>
    length (panicked_events (fw_proc s)) = (if pr_panicked (fw_proc s) = None then 0 else 1) \<and>
    (fw_running s \<longrightarrow> panicked_events (fw_proc s) = []) \<and>
    map build_payload (pr_chained (fw_proc s)) = map build_payload (pr_received (fw_proc s)) \<and>
    chained (sv_hash sv) [] (pr_chained (fw_proc s)) \<and>
    subseq (stored (fw_proc s) @ retry_queue (pr_writer (fw_proc s)) @ pr_batch (fw_proc s))
      (pr_chained (fw_proc s))"
proof -
  have all: "chain_all (sv_hash sv) new_chain (pr_received (fw_proc s)) =
      Some (pr_chain (fw_proc s), pr_chained (fw_proc s))"
    using reach_proc(1) [OF assms] by (simp add: chain_inv_def)
  with reach_proc(4,5,7) [OF assms] chain_all_chained [OF all] chain_all_frame [OF all] show ?thesis
    by (auto simp: order_inv_def pending_def new_chain_def channel_inv_def stop_inv_def panicked_events_def
        split: option.split)
qed

theorem events_in_order_witness:
  "chained (\<lambda>s. ''h'' @ s) [] (pr_chained (fw_proc sample_written)) \<and>
   map build_payload (pr_chained (fw_proc sample_written)) = [build_payload sample_event]"
  using events_in_order [OF sample_reach(2)]
  by (simp add: sample_written_facts(3)) (simp add: sample_services_def)

text \<open>C7: While the forwarder runs and no write has lost events, every accepted event is in exactly one
  place: stored, queued for a retry, in the batch, or in the channel, and these four hold them in the
  order of the chain.\<close>

theorem nothing_lost:
  assumes "reach (fw_start csv) (fw_step sv parse) s" and "fw_running s" and "lossless (fw_proc s)"
  shows "pr_chained (fw_proc s) =
      stored (fw_proc s) @ retry_queue (pr_writer (fw_proc s)) @ pr_batch (fw_proc s) \<and>
    fw_accepted s = pr_received (fw_proc s) @ fw_channel s \<and>
    length (fw_accepted s) =
      length (stored (fw_proc s)) + length (retry_queue (pr_writer (fw_proc s))) +
      length (pr_batch (fw_proc s)) + length (fw_channel s)"
proof -
  have all: "chain_all (sv_hash sv) new_chain (pr_received (fw_proc s)) =
      Some (pr_chain (fw_proc s), pr_chained (fw_proc s))"
    using reach_proc(1) [OF assms(1)] by (simp add: chain_inv_def)
  have chained: "pr_chained (fw_proc s) =
      stored (fw_proc s) @ retry_queue (pr_writer (fw_proc s)) @ pr_batch (fw_proc s)"
    using reach_proc(4) [OF assms(1)] assms(3) by (simp add: order_inv_def pending_def)
  have accepted: "fw_accepted s = pr_received (fw_proc s) @ fw_channel s"
    using reach_proc(5,7) [OF assms(1)] assms(2) by (simp add: channel_inv_def stop_inv_def panicked_events_def)
  have "length (pr_received (fw_proc s)) = length (pr_chained (fw_proc s))"
    using chain_all_frame [OF all] by simp
  with accepted have "length (fw_accepted s) = length (pr_chained (fw_proc s)) + length (fw_channel s)"
    by simp
  with chained accepted show ?thesis by simp
qed

theorem nothing_lost_witness:
  "fw_accepted sample_written = [sample_event] @ fw_channel sample_written"
  using nothing_lost [OF sample_reach(2) sample_written_facts(1,2)] by (simp add: sample_written_facts(3))

text \<open>C26: Memory is bounded in every run: the channel holds at most 10,000 events, the batch at most 99
  between two steps, the retry queue at most 10,000.\<close>

theorem queues_bounded:
  assumes "reach (fw_start csv) (fw_step sv parse) s"
  shows "length (fw_channel s) \<le> 10000 \<and> length (pr_batch (fw_proc s)) < 100 \<and>
    length (retry_queue (pr_writer (fw_proc s))) \<le> 10000"
  using reach_proc(3,5) [OF assms]
  by (simp add: channel_inv_def queue_inv_def channel_capacity_def batch_limit_def max_retry_def)

theorem queues_bounded_witness: "length (fw_channel sample_queued) \<le> 10000"
  using queues_bounded [OF sample_reach(1)] by simp

text \<open>C30: The counters tell the truth in every run, modulo \<open>2^64\<close>. The health endpoint reads the health
  data, the position, the WAL counter and the UDP counter one after the other, at four points of a run
  (between the steps of the processor). It reports as events processed and as chain length the number
  of events chained up to its first reading, and the time of the last of them; the WAL count is the
  number of events the worker has sent, plus the one it is about to send; the UDP count that of the
  events, the one the processor panicked at included, whose \<open>detail.source\<close> is not \<open>wal\<close>. One GELF message was
  attempted per chained event.\<close>

theorem counters_exact:
  assumes "reach (fw_start csv) (fw_step sv parse) s1" and "(fw_step sv parse)\<^sup>*\<^sup>* s1 s2"
    and "(fw_step sv parse)\<^sup>*\<^sup>* s2 s3" and "(fw_step sv parse)\<^sup>*\<^sup>* s3 s4"
  shows "health_handler (pr_health (fw_proc s1)) wal (wal_lsn (fw_wal s2)) (wal_event_count (fw_wal s3))
      (pr_udp_count (fw_proc s4)) =
    \<lparr>hr_status = ''ok'',
     hr_events_processed = of_nat (length (pr_chained (fw_proc s1))),
     hr_chain_length = of_nat (length (pr_chained (fw_proc s1))),
     hr_last_event_time = (if pr_received (fw_proc s1) = [] then None
       else as_str (jget (last (pr_received (fw_proc s1))) ''event_time'')),
     hr_wal_enabled = wal,
     hr_wal_lsn = wal_lsn (fw_wal s2),
     hr_wal_events = of_nat (length (wal_sent (fw_wal s3)) + (if fw_sending s3 = None then 0 else 1)),
     hr_udp_events = of_nat (length (filter (\<lambda>e. as_str (jget (jget e ''detail'') ''source'') \<noteq> Some ''wal'')
       (pr_received (fw_proc s4) @ panicked_events (fw_proc s4))))\<rparr> \<and>
    subseq (wal_sent (fw_wal s3)) (fw_accepted s3) \<and>
    length (pr_gelf (fw_proc s1)) = length (pr_chained (fw_proc s1))"
proof -
  note r2 = reach_run [OF assms(2,1)]
  note r3 = reach_run [OF assms(3) r2]
  note r4 = reach_run [OF assms(4) r3]
  have "chain_all (sv_hash sv) new_chain (pr_received (fw_proc s1)) =
      Some (pr_chain (fw_proc s1), pr_chained (fw_proc s1))"
    using reach_proc(1) [OF assms(1)] by (simp add: chain_inv_def)
  from chain_all_frame [OF this] have "length (pr_chained (fw_proc s1)) = length (pr_received (fw_proc s1))" by simp
  moreover have "pr_udp_count (fw_proc s4) = of_nat (length
      (filter (\<lambda>e. as_str (jget (jget e ''detail'') ''source'') \<noteq> Some ''wal'')
       (pr_received (fw_proc s4) @ panicked_events (fw_proc s4))))"
    using reach_proc(2) [OF r4] by (simp only: count_inv_def is_wal_event_eq)
  ultimately show ?thesis
    using reach_proc(2) [OF assms(1)] reach_proc(6) [OF r3]
    by (simp add: count_inv_def wal_inv_def health_handler_def)
qed

theorem counters_exact_witness:
  "hr_events_processed (health_handler (pr_health (fw_proc sample_written)) True
     (wal_lsn (fw_wal sample_written)) (wal_event_count (fw_wal sample_written))
     (pr_udp_count (fw_proc sample_written))) = 1"
proof -
  have "length (pr_chained (fw_proc sample_written)) = 1" by code_simp
  then show ?thesis
    using counters_exact [OF sample_reach(2) rtranclp.rtrancl_refl rtranclp.rtrancl_refl rtranclp.rtrancl_refl, of True]
    by simp
qed

section \<open>How a run ends\<close>

text \<open>C31: A run goes on for ever unless one of three tasks ends. A state that was reached can take a step
  exactly while the forwarder is running, and it is running exactly while the processor has not
  panicked, the listener has not failed to bind its port and the health server has neither failed to
  bind its port nor ended. An event the processor panicked at is one that was accepted, and it is
  neither an object nor \<open>null\<close>.\<close>

theorem run_ends_exactly:
  assumes "reach (fw_start csv) (fw_step sv parse) s"
  shows "(\<exists>t. fw_step sv parse s t) = fw_running s \<and>
    fw_running s =
      (pr_panicked (fw_proc s) = None \<and> fw_listener s \<noteq> Ended \<and> fw_health s \<noteq> Ended) \<and>
    (case pr_panicked (fw_proc s) of
       None \<Rightarrow> True
     | Some bad \<Rightarrow> bad \<in> set (fw_accepted s) \<and> \<not> is_null bad \<and> \<not> is_object bad)"
proof -
  have "\<exists>t. fw_step sv parse s t" if "fw_running s"
    using tick [OF that] by blast
  moreover have "fw_running s" if "fw_step sv parse s t" for t
    using that by (rule fw_stepE)
  ultimately have "(\<exists>t. fw_step sv parse s t) = fw_running s" by blast
  then show ?thesis
    using reach_proc(5,7) [OF assms] by (auto simp: channel_inv_def stop_inv_def panicked_events_def split: option.split)
qed

theorem run_ends_exactly_witness:
  "\<exists>t. fw_step sample_services (\<lambda>_. Some sample_event) sample_written t"
  using run_ends_exactly [OF sample_reach(2)] by (simp add: sample_written_facts(1))

text \<open>C32: One datagram is enough to stop it. From every running state whose listener is bound and whose
  channel is empty, a datagram whose JSON text is a number, a string, a boolean or an array leads in
  two steps to a state in which the forwarder has stopped, with the batch and the retry queue
  unwritten; the processor has counted the event and done nothing else with it.\<close>

theorem bad_datagram_stops:
  assumes "fw_running s" and "fw_listener s = Serving" and "fw_channel s = []"
    and "parse (take recv_buffer d) = Some bad" and "\<not> is_null bad" and "\<not> is_object bad"
  shows "\<exists>s1 t. fw_step sv parse s s1 \<and> fw_step sv parse s1 t \<and> \<not> fw_running t \<and>
    (\<nexists>u. fw_step sv parse t u) \<and>
    fw_proc t = (fw_proc s)\<lparr>pr_udp_count := pr_udp_count (fw_proc s) + 1, pr_panicked := Some bad\<rparr>"
proof -
  let ?s1 = "enqueue bad s"
  let ?t = "?s1\<lparr>fw_channel := [], fw_proc := processor_panic bad (fw_proc s), fw_running := False\<rparr>"
  have "fw_step sv parse s ?s1"
    using assms by (intro udp_accept) (auto simp: channel_capacity_def)
  moreover have "processor_event sv (Inl [] :: pool_answer) (\<lambda>_ _ _. Inl []) (fw_proc ?s1) bad = None"
    using assms(5,6) by (simp add: processor_event_None)
  then have "fw_step sv parse ?s1 (?s1\<lparr>fw_channel := [], fw_proc := processor_panic bad (fw_proc ?s1), fw_running := False\<rparr>)"
    using assms(1,3)
    by (intro process_panic [where event = bad and pool_get = "Inl []" and execute = "\<lambda>_ _ _. Inl []"])
      (auto simp: enqueue_def)
  then have "fw_step sv parse ?s1 ?t" by (simp add: enqueue_def)
  moreover have "\<nexists>u. fw_step sv parse ?t u" by (auto elim!: fw_stepE)
  moreover have "\<not> is_wal_event bad"
    using assms(5,6) by (cases bad) (simp_all add: is_wal_event_def)
  ultimately show ?thesis
    by (intro exI [of _ ?s1] exI [of _ ?t]) (simp add: processor_panic_def count_udp_def)
qed

theorem bad_datagram_stops_witness:
  "\<exists>s1 t. fw_step sample_services (\<lambda>_. Some (JBool True)) sample_serving s1 \<and>
     fw_step sample_services (\<lambda>_. Some (JBool True)) s1 t \<and> \<not> fw_running t"
  using bad_datagram_stops [OF sample_serving_facts(1-3), of "\<lambda>_. Some (JBool True)" "''true''" "JBool True"
    sample_services]
  by auto

section \<open>Configuration and capture together\<close>

text \<open>C22: A globally configured name is masked at every point of every run: whatever the refreshes of the
  registry have read or failed to read, the event captured from an INSERT shows the column of that
  name as redacted. This holds for the rows the parser reads back: type names without white space,
  values whose words are separated by single spaces and which do not end with a quote, and schema,
  table and column names that are printed without double quotes.\<close>

theorem configured_name_always_masked:
  assumes "reach (fw_start csv) (fw_step sv parse) s"
    and "safe_change keyword schema table items" and "list_all faithful items" and "items \<noteq> []"
    and "c \<in> set (columns_of_items False items)" and "pc_name c \<in> set (global_fields (new_registry csv))"
  shows "\<exists>e. parse_test_decoding parse now (fw_registry s)
      (print_change keyword ''INSERT'' schema table items) xid lsn = Some [e] \<and>
    document_field e ''new_data'' (pc_name c) = redacted"
proof -
  let ?cols = "columns_of_items False items"
  let ?doc = "columns_to_jsonb parse ?cols"
  have "line_word ''INSERT''" by code_simp
  note parsed = parse_safe_change [OF this assms(2-4)]
  have docs: "change_documents parse ''INSERT'' ?cols = Some (None, Some ?doc)"
    by (simp add: change_documents_def)
  have "global_hit (fw_registry s) (pc_name c)"
    using names.reach_inv [OF assms(1)] assms(6) by (auto simp: global_hit_def Let_def list_ex_iff)
  then have "masked_field (fw_registry s) schema table (all_fields ?doc) (Some ?doc) (pc_name c) = redacted"
    using assms(5) jlookup_columns_None [of parse ?cols "pc_name c"]
    by (simp add: masked_field_def all_fields_columns sensitivity_def)
  then show ?thesis
    using captured_fields [OF parsed docs safe_plain_names [OF assms(2)], of now "fw_registry s" xid lsn] by auto
qed

theorem configured_name_always_masked_witness:
  "\<exists>e. parse_test_decoding (\<lambda>_. Some sample_event) ''t'' (fw_registry sample_written)
      (print_change (\<lambda>_. False) ''INSERT'' ''public'' ''t''
        [Column \<lparr>rc_name = ''ssn'', rc_type = ''text'', rc_text = Quoted [''1'']\<rparr>]) ''9'' ''0/1'' = Some [e] \<and>
    document_field e ''new_data'' ''ssn'' = redacted"
proof -
  let ?items = "[Column \<lparr>rc_name = ''ssn'', rc_type = ''text'', rc_text = Quoted [''1'']\<rparr>]"
  have facts: "safe_change (\<lambda>_. False) ''public'' ''t'' ?items" "list_all faithful ?items" "?items \<noteq> []"
    "global_fields (new_registry ''ssn'') = [''ssn'']"
    by code_simp+
  show ?thesis
    using configured_name_always_masked [OF sample_reach(2) facts(1-3),
        of "\<lparr>pc_name = ''ssn'', pc_value = ''1'', pc_is_old = False\<rparr>" "''t''" "''9''" "''0/1''"]
    by (simp add: facts(4))
qed

end
